theory Spec2Isabelle
  imports Complex_Main
begin

section \<open>The Recorder class of gaussian-vrm: data model\<close>

text \<open>
  The class \<^verbatim>\<open>Recorder\<close> wraps the browser's \<^verbatim>\<open>MediaRecorder\<close>. The browser objects it
  touches are made explicit: every call on them is appended to a chronological log of
  effects, and the two callbacks the constructor installs (\<^verbatim>\<open>ondataavailable\<close>,
  \<^verbatim>\<open>onstop\<close>) are functions on the state that the capture facility may invoke.

  Arrays are JavaScript objects with identity. The constructor's local variable
  \<^verbatim>\<open>recordedChunks\<close>, captured by both callbacks, and the property
  \<^verbatim>\<open>this.recordedChunks\<close> are two references; they are modelled as addresses into a
  store of arrays, so that rebinding one of them does not touch the other.
\<close>

text \<open>A \<^verbatim>\<open>Blob\<close>: its bytes and its MIME type; \<^verbatim>\<open>size\<close> is the number of bytes.\<close>

datatype blob = Blob (blob_bytes: "nat list") (blob_type: string)

definition size_of :: "blob \<Rightarrow> nat" where
  "size_of b = length (blob_bytes b)"

text \<open>\<^verbatim>\<open>new Blob(parts, {type})\<close> concatenates the parts in order.\<close>

definition new_Blob :: "blob list \<Rightarrow> string \<Rightarrow> blob" where
  "new_Blob parts ty = Blob (concat (map blob_bytes parts)) ty"

datatype effect =
    ConsoleWarn string
  | ConsoleLog string
  | MediaRecorderStart
  | MediaRecorderStop
  | PopupAppended string bool
  | PopupRemoved
  | SetTimeout nat
  | DownloadClicked string blob
  | PromiseResolved nat

text \<open>The avatar object handed to \<^verbatim>\<open>setGVRM\<close>: the fields the recorder reads for the
  file name. \<^verbatim>\<open>None\<close> stands for \<^verbatim>\<open>undefined\<close>/\<^verbatim>\<open>null\<close>.\<close>

record character =
  animationUrl :: "string option"

record gvrm =
  fileName :: "string option"
  character :: "character option"

text \<open>What the constructor probes: \<^verbatim>\<open>window.MediaRecorder\<close> and
  \<^verbatim>\<open>MediaRecorder.isTypeSupported\<close>.\<close>

record browser =
  hasMediaRecorder :: bool
  isTypeSupported :: "string \<Rightarrow> bool"

type_synonym addr = nat

record recorder =
  isSupported :: bool
  isRecording :: bool
  popup :: "(string \<times> bool) option"
  options_mimeType :: "string option"
  arrays :: "addr \<Rightarrow> blob list"
  next_addr :: addr
  closure_recordedChunks :: addr
  this_recordedChunks :: "addr option"
  currentRecordingResolve :: "nat option"
  this_gvrm :: "gvrm option"
  effects :: "effect list"

text \<open>An object on which no field has been assigned yet. Fields that stay
  \<^verbatim>\<open>undefined\<close> are \<^verbatim>\<open>None\<close>, or \<^verbatim>\<open>False\<close> for the flags (which the code only
  tests for truthiness).\<close>

definition blank :: recorder where
  "blank = \<lparr> isSupported = False, isRecording = False, popup = None,
     options_mimeType = None, arrays = (\<lambda>_. []), next_addr = 0,
     closure_recordedChunks = 0, this_recordedChunks = None,
     currentRecordingResolve = None, this_gvrm = None, effects = [] \<rparr>"

definition emit :: "effect \<Rightarrow> recorder \<Rightarrow> recorder" where
  "emit e r = r\<lparr> effects := effects r @ [e] \<rparr>"

subsection \<open>JavaScript string helpers\<close>

text \<open>\<^verbatim>\<open>s.includes(sub)\<close>: \<^verbatim>\<open>sub\<close> occurs in \<^verbatim>\<open>s\<close> as a contiguous substring.\<close>

fun str_includes :: "string \<Rightarrow> string \<Rightarrow> bool" where
  "str_includes [] sub = (sub = [])"
| "str_includes (c # cs) sub = (take (length sub) (c # cs) = sub \<or> str_includes cs sub)"

text \<open>\<^verbatim>\<open>s.split(c)\<close> for a one-character separator: never the empty array.\<close>

fun js_split :: "char \<Rightarrow> string \<Rightarrow> string list" where
  "js_split c [] = [[]]"
| "js_split c (x # xs) =
     (if x = c then [] # js_split c xs
      else (case js_split c xs of
              w # ws \<Rightarrow> (x # w) # ws
            | [] \<Rightarrow> [[x]]))"

text \<open>\<^verbatim>\<open>path.split('/').pop().split('.').shift()\<close>\<close>

definition strip_path :: "string \<Rightarrow> string" where
  "strip_path path = hd (js_split CHR ''.'' (last (js_split CHR ''/'' path)))"

section \<open>The constructor\<close>

text \<open>The \<^verbatim>\<open>if\<close>/\<^verbatim>\<open>else if\<close> chain that chooses \<^verbatim>\<open>options.mimeType\<close>; \<^verbatim>\<open>None\<close> is
  the final \<^verbatim>\<open>else\<close> branch ("No suitable codec found").\<close>

definition choose_mimeType :: "(string \<Rightarrow> bool) \<Rightarrow> string option" where
  "choose_mimeType supported =
     (if supported ''video/mp4'' then Some ''video/mp4''
      else if supported ''video/webm;codecs=h264'' then Some ''video/webm;codecs=h264''
      else if supported ''video/webm'' then Some ''video/webm''
      else None)"

definition new_Recorder :: "browser \<Rightarrow> recorder" where
  "new_Recorder w =
     (if \<not> hasMediaRecorder w \<or> \<not> isTypeSupported w ''video/webm'' then
        emit (ConsoleWarn ''MediaRecorder or video/webm is not supported on this browser.'')
          (blank\<lparr> isSupported := False \<rparr>)
      else
        (case choose_mimeType (isTypeSupported w) of
           None \<Rightarrow>
             emit (ConsoleWarn ''No suitable codec found'')
               (blank\<lparr> isSupported := False, isRecording := False, popup := None \<rparr>)
         | Some m \<Rightarrow>
             emit (ConsoleLog (''Using codec: '' @ m))
               (blank\<lparr> isSupported := True, isRecording := False, popup := None,
                  options_mimeType := Some m,
                  arrays := (\<lambda>_. []), next_addr := 1,
                  closure_recordedChunks := 0, this_recordedChunks := Some 0,
                  currentRecordingResolve := None \<rparr>)))"

text \<open>
  The constructor also keeps the scene, the camera and the renderer, asks the canvas for
  a stream at 60 frames per second, creates the MediaRecorder on it and registers the
  keyboard listener that turns the key R into a call of \<^verbatim>\<open>toggleRecording\<close>. No method
  reads any of these; the console output is kept in the log.
\<close>

section \<open>Notifications\<close>

text \<open>The popup element is in the document from \<^verbatim>\<open>showPopup\<close> until \<^verbatim>\<open>hidePopup\<close>
  removes it, so \<^verbatim>\<open>this.popup && this.popup.parentNode\<close> holds exactly when
  \<^verbatim>\<open>this.popup\<close> is set.\<close>

definition hidePopup :: "recorder \<Rightarrow> recorder" where
  "hidePopup r =
     (case popup r of
        None \<Rightarrow> r
      | Some _ \<Rightarrow> (emit PopupRemoved r)\<lparr> popup := None \<rparr>)"

text \<open>\<^verbatim>\<open>showPopup(message, isRecording)\<close>: the second argument chooses the colour and
  suppresses the two-second timer.\<close>

definition showPopup :: "string \<Rightarrow> bool \<Rightarrow> recorder \<Rightarrow> recorder" where
  "showPopup message rec_flag r =
     (let r1 = hidePopup r;
          r2 = (emit (PopupAppended message rec_flag) r1)\<lparr> popup := Some (message, rec_flag) \<rparr>
      in if \<not> rec_flag then emit (SetTimeout 2000) r2 else r2)"

section \<open>Starting and stopping\<close>

text \<open>The indicator text starts with U+25CF (black circle), three bytes in UTF-8.\<close>

definition recording_message :: string where
  "recording_message = [CHR 0xE2, CHR 0x97, CHR 0x8F] @ '' Recording...''"

definition startRecording :: "recorder \<Rightarrow> recorder" where
  "startRecording r =
     (if \<not> isSupported r \<or> isRecording r then r
      else
        (let r1 = emit (ConsoleLog ''start recording'') r;
             a = next_addr r1;
             r2 = r1\<lparr> arrays := (arrays r1)(a := []), next_addr := Suc a,
                     this_recordedChunks := Some a \<rparr>;
             r3 = emit MediaRecorderStart r2;
             r4 = r3\<lparr> isRecording := True \<rparr>
         in showPopup recording_message True r4))"

definition stopRecording :: "recorder \<Rightarrow> recorder" where
  "stopRecording r =
     (if \<not> isSupported r \<or> \<not> isRecording r then r
      else
        (let r1 = emit (ConsoleLog ''stop recording'') r;
             r2 = emit MediaRecorderStop r1;
             r3 = r2\<lparr> isRecording := False \<rparr>;
             r4 = hidePopup r3
         in showPopup ''Recording stopped'' False r4))"

definition toggleRecording :: "recorder \<Rightarrow> recorder" where
  "toggleRecording r =
     (if \<not> isSupported r then r
      else if isRecording r then stopRecording r
      else startRecording r)"

definition setGVRM :: "gvrm option \<Rightarrow> recorder \<Rightarrow> recorder" where
  "setGVRM g r = r\<lparr> this_gvrm := g \<rparr>"

section \<open>The callbacks installed on the MediaRecorder\<close>

text \<open>
  Both callbacks are created by the constructor after \<^verbatim>\<open>options\<close> has been chosen, so
  they exist only on a recorder with \<^verbatim>\<open>options_mimeType = Some m\<close>; on any other state
  there is nothing to invoke and the model leaves the state alone. They read and rebind
  the constructor's local \<^verbatim>\<open>recordedChunks\<close> (\<open>closure_recordedChunks\<close>), never
  \<^verbatim>\<open>this.recordedChunks\<close>.
\<close>

definition ondataavailable :: "blob \<Rightarrow> recorder \<Rightarrow> recorder" where
  "ondataavailable d r =
     (case options_mimeType r of
        None \<Rightarrow> r
      | Some _ \<Rightarrow>
          if size_of d > 0 then
            r\<lparr> arrays := (arrays r)(closure_recordedChunks r :=
                   arrays r (closure_recordedChunks r) @ [d]) \<rparr>
          else r)"

text \<open>\<^verbatim>\<open>options.mimeType && options.mimeType.includes("mp4") ? "mp4" : "webm"\<close>\<close>

definition fileExt :: "string \<Rightarrow> string" where
  "fileExt m = (if m \<noteq> [] \<and> str_includes m ''mp4'' then ''mp4'' else ''webm'')"

text \<open>The file name before the extension. A string is truthy when it is defined and
  not empty; an object when it is defined.\<close>

definition filename_of :: "gvrm option \<Rightarrow> string" where
  "filename_of g =
     (case g of
        None \<Rightarrow> ''recording''
      | Some gv \<Rightarrow>
          (case fileName gv of
             None \<Rightarrow> ''recording''
           | Some fn \<Rightarrow>
               if fn = [] then ''recording''
               else
                 (let gvrmFileName = strip_path fn in
                  case character gv of
                    None \<Rightarrow> ''recording_'' @ gvrmFileName
                  | Some ch \<Rightarrow>
                      (case animationUrl ch of
                         None \<Rightarrow> ''recording_'' @ gvrmFileName
                       | Some url \<Rightarrow>
                           if url = [] then ''recording_'' @ gvrmFileName
                           else ''recording_'' @ gvrmFileName @ ''_'' @ strip_path url))))"

definition onstop :: "recorder \<Rightarrow> recorder" where
  "onstop r =
     (case options_mimeType r of
        None \<Rightarrow> r
      | Some m \<Rightarrow>
          (let ext = fileExt m;
               b = new_Blob (arrays r (closure_recordedChunks r))
                     (if m \<noteq> [] then m else ''video/webm'');
               filename = filename_of (this_gvrm r);
               r1 = emit (DownloadClicked (filename @ ''.'' @ ext) b) r;
               a = next_addr r1;
               r2 = r1\<lparr> arrays := (arrays r1)(a := []), next_addr := Suc a,
                       closure_recordedChunks := a \<rparr>
           in case currentRecordingResolve r2 of
                None \<Rightarrow> r2
              | Some p \<Rightarrow> (emit (PromiseResolved p) r2)\<lparr> currentRecordingResolve := None \<rparr>))"

section \<open>JavaScript numbers\<close>

text \<open>
  The clock and the clip duration are JavaScript numbers: IEEE 754 binary64 values. A
  finite one is modelled by the rational it denotes, and an arithmetic operation by the
  exact operation followed by rounding to the nearest binary64 value, ties to even.
  Magnitudes from \<open>2 ^ 1024\<close> on (where the engine gives \<^verbatim>\<open>Infinity\<close>) and \<^verbatim>\<open>NaN\<close> are
  outside the model: a clock reading and a clip duration are finite numbers of seconds.
\<close>

type_synonym double = rat

text \<open>The number of binary digits of a positive integer.\<close>

fun bit_length :: "int \<Rightarrow> nat" where
  "bit_length n = (if n \<le> 0 then 0 else Suc (bit_length (n div 2)))"

declare bit_length.simps [simp del]

text \<open>For \<open>x > 0\<close>, the exponent \<open>e\<close> with \<open>2 ^ e \<le> x < 2 ^ (e + 1)\<close>.\<close>

definition binary_exponent :: "rat \<Rightarrow> int" where
  "binary_exponent x =
     (if 1 \<le> x then int (bit_length \<lfloor>x\<rfloor>) - 1
      else - int (bit_length (\<lceil>1 / x\<rceil> - 1)))"

definition pow2 :: "int \<Rightarrow> rat" where
  "pow2 e = (if 0 \<le> e then 2 ^ nat e else 1 / 2 ^ nat (- e))"

definition round_half_even :: "rat \<Rightarrow> int" where
  "round_half_even y =
     (let f = \<lfloor>y\<rfloor>; d = y - of_int f
      in if d < 1 / 2 then f
         else if 1 / 2 < d then f + 1
         else if even f then f else f + 1)"

text \<open>
  Rounding to binary64: 53 significant bits, so the spacing of the values around \<open>x\<close> is
  \<open>2 ^ (e - 52)\<close>; below \<open>2 ^ (- 1022)\<close> (the subnormal range) it stays \<open>2 ^ (- 1074)\<close>.
\<close>

definition round_double :: "rat \<Rightarrow> double" where
  "round_double x =
     (if x = 0 then 0
      else
        (let a = \<bar>x\<bar>;
             e = max (binary_exponent a) (- 1022);
             q = pow2 (e - 52)
         in sgn x * of_int (round_half_even (a / q)) * q))"

definition js_add :: "double \<Rightarrow> double \<Rightarrow> double" where
  "js_add a b = round_double (a + b)"

definition js_div :: "double \<Rightarrow> double \<Rightarrow> double" where
  "js_div a b = round_double (a / b)"

section \<open>recordAnimation\<close>

text \<open>
  The closure variables of one call of \<^verbatim>\<open>recordAnimation\<close>, the clip duration it read,
  and the callbacks it has registered with \<^verbatim>\<open>requestAnimationFrame\<close> for the next
  frame. \<open>threw\<close> is set when a frame callback of the run has raised a \<^verbatim>\<open>TypeError\<close>.
\<close>

datatype raf_callback = FrameCallback | StopCallback

record run =
  recording1Started :: bool
  recording2Started :: bool
  recordingFinished :: bool
  frameCount2 :: nat
  animationDuration :: double
  requested :: "raf_callback list"
  threw :: bool

definition requestAnimationFrame :: "raf_callback \<Rightarrow> run \<Rightarrow> run" where
  "requestAnimationFrame cb u = u\<lparr> requested := requested u @ [cb] \<rparr>"

text \<open>The test \<^verbatim>\<open>time + 1.0/60 >= animationDuration\<close> of lines 372 and 382, as the engine
  computes it: the quotient is rounded, then the sum.\<close>

definition lookahead :: "double \<Rightarrow> double \<Rightarrow> bool" where
  "lookahead t D = (D \<le> js_add t (js_div 1 60))"

text \<open>The last statement of \<^verbatim>\<open>frameCallback\<close>:
  \<^verbatim>\<open>if (!recordingFinished) requestAnimationFrame(frameCallback)\<close>.\<close>

definition poll_again :: "recorder \<times> run \<Rightarrow> recorder \<times> run" where
  "poll_again c =
     (if \<not> recordingFinished (snd c) then
        (fst c, requestAnimationFrame FrameCallback (snd c))
      else c)"

text \<open>
  Whether \<^verbatim>\<open>this.gvrm.character.action.time\<close> can be read: an avatar is attached and has
  a character. A character has its action, which \<^verbatim>\<open>changeFBX\<close> set up before the run
  began.
\<close>

definition clock_readable :: "recorder \<Rightarrow> bool" where
  "clock_readable r =
     (case this_gvrm r of
        None \<Rightarrow> False
      | Some g \<Rightarrow> character g \<noteq> None)"

text \<open>
  \<^verbatim>\<open>frameCallback\<close>, with \<open>t\<close> the value of \<^verbatim>\<open>this.gvrm.character.action.time\<close> on this
  frame. The two branches that test the clock read it first: when it cannot be read the
  read raises a \<^verbatim>\<open>TypeError\<close>, the callback ends there (in the counting branch after the
  increment) and registers nothing, so the run polls no further.
\<close>

definition frameCallback :: "double \<Rightarrow> recorder \<times> run \<Rightarrow> recorder \<times> run" where
  "frameCallback t c =
     (let r = fst c; u = snd c in
      if \<not> recording1Started u then
        (if \<not> clock_readable r then (r, u\<lparr> threw := True \<rparr>)
         else
           poll_again
             (if lookahead t (animationDuration u) then
                (startRecording r, u\<lparr> recording1Started := True \<rparr>)
              else (r, u)))
      else if recording1Started u \<and> \<not> recording2Started u then
        poll_again (r, u\<lparr> recording2Started := True \<rparr>)
      else if recording2Started u then
        (let u1 = u\<lparr> frameCount2 := frameCount2 u + 1 \<rparr> in
         if \<not> clock_readable r then (r, u1\<lparr> threw := True \<rparr>)
         else
           poll_again
             (if lookahead t (animationDuration u1) \<and> frameCount2 u1 > 5 then
                (r, requestAnimationFrame StopCallback u1)
              else (r, u1)))
      else poll_again (r, u))"

text \<open>The arrow function handed to \<^verbatim>\<open>requestAnimationFrame\<close> once the stop condition
  holds.\<close>

definition stopCallback :: "recorder \<times> run \<Rightarrow> recorder \<times> run" where
  "stopCallback c = (stopRecording (fst c), (snd c)\<lparr> recordingFinished := True \<rparr>)"

fun run_callback :: "double \<Rightarrow> raf_callback \<Rightarrow> recorder \<times> run \<Rightarrow> recorder \<times> run" where
  "run_callback t FrameCallback c = frameCallback t c"
| "run_callback t StopCallback c = stopCallback c"

text \<open>One animation frame: the browser runs the callbacks registered before the frame,
  in the order of registration; what they register runs in the next frame.\<close>

definition animation_frame :: "double \<Rightarrow> recorder \<times> run \<Rightarrow> recorder \<times> run" where
  "animation_frame t c =
     fold (run_callback t) (requested (snd c)) (fst c, (snd c)\<lparr> requested := [] \<rparr>)"

definition animation_frames :: "double list \<Rightarrow> recorder \<times> run \<Rightarrow> recorder \<times> run" where
  "animation_frames ts c = fold animation_frame ts c"

text \<open>
  \<^verbatim>\<open>recordAnimation\<close> up to the point where it hands control to the frame callbacks.
  After the guard it awaits the avatar and \<^verbatim>\<open>changeFBX\<close>, reads the clip duration \<open>D\<close>
  and creates the promise \<open>p\<close>; the executor stores its \<^verbatim>\<open>resolve\<close> in
  \<^verbatim>\<open>currentRecordingResolve\<close>, initialises the closure variables and registers
  \<^verbatim>\<open>frameCallback\<close>. \<open>D\<close> and \<open>p\<close> come from the avatar and the runtime.
\<close>

datatype outcome = ResolvedAtOnce recorder | Polling recorder run

definition initial_run :: "double \<Rightarrow> run" where
  "initial_run D = \<lparr> recording1Started = False, recording2Started = False,
     recordingFinished = False, frameCount2 = 0, animationDuration = D,
     requested = [FrameCallback], threw = False \<rparr>"

definition recordAnimation :: "nat \<Rightarrow> double \<Rightarrow> recorder \<Rightarrow> outcome" where
  "recordAnimation p D r =
     (if \<not> isSupported r \<or> this_gvrm r = None then ResolvedAtOnce r
      else Polling (r\<lparr> currentRecordingResolve := Some p \<rparr>) (initial_run D))"

section \<open>The page: a recorder, its runs, and what can happen to them\<close>

text \<open>
  Several calls of \<^verbatim>\<open>recordAnimation\<close> may be in flight; each has its own closure
  variables and its own registered callbacks, and all share the recorder. Within a frame
  the callbacks of an earlier call run before those of a later one, since each call
  registers its callbacks while its own \<^verbatim>\<open>frameCallback\<close> runs.
\<close>

record page =
  rec :: recorder
  runs :: "run list"
  resolved_at_once :: "nat list"

fun frame_all :: "double \<Rightarrow> recorder \<Rightarrow> run list \<Rightarrow> recorder \<times> run list" where
  "frame_all t r [] = (r, [])"
| "frame_all t r (u # us) =
     (let c = animation_frame t (r, u);
          d = frame_all t (fst c) us
      in (fst d, snd c # snd d))"

datatype event =
    Call_toggleRecording
  | Call_startRecording
  | Call_stopRecording
  | Call_setGVRM "gvrm option"
  | Call_recordAnimation nat double
  | Fire_dataavailable blob
  | Fire_stop
  | Fire_timeout
  | Fire_animationFrame double

text \<open>
  The calls are the public methods (the key R is \<open>Call_toggleRecording\<close>); a call of
  \<^verbatim>\<open>recordAnimation\<close> is one step, from its guard to the registration of the first frame
  callback. The others are
  the browser invoking a callback:
  the capture facility's \<^verbatim>\<open>dataavailable\<close> and \<^verbatim>\<open>stop\<close> events, the two-second timer of
  \<^verbatim>\<open>showPopup\<close> (which calls \<^verbatim>\<open>hidePopup\<close>), and an animation frame with the clock value
  the frame callbacks read. The browser is not constrained: any event may come at any
  time.
\<close>

fun fire :: "event \<Rightarrow> page \<Rightarrow> page" where
  "fire Call_toggleRecording s = s\<lparr> rec := toggleRecording (rec s) \<rparr>"
| "fire Call_startRecording s = s\<lparr> rec := startRecording (rec s) \<rparr>"
| "fire Call_stopRecording s = s\<lparr> rec := stopRecording (rec s) \<rparr>"
| "fire (Call_setGVRM g) s = s\<lparr> rec := setGVRM g (rec s) \<rparr>"
| "fire (Call_recordAnimation p D) s =
     (case recordAnimation p D (rec s) of
        ResolvedAtOnce r \<Rightarrow> s\<lparr> rec := r, resolved_at_once := resolved_at_once s @ [p] \<rparr>
      | Polling r u \<Rightarrow> s\<lparr> rec := r, runs := runs s @ [u] \<rparr>)"
| "fire (Fire_dataavailable d) s = s\<lparr> rec := ondataavailable d (rec s) \<rparr>"
| "fire Fire_stop s = s\<lparr> rec := onstop (rec s) \<rparr>"
| "fire Fire_timeout s = s\<lparr> rec := hidePopup (rec s) \<rparr>"
| "fire (Fire_animationFrame t) s =
     (let d = frame_all t (rec s) (runs s) in s\<lparr> rec := fst d, runs := snd d \<rparr>)"

definition load_page :: "browser \<Rightarrow> page" where
  "load_page w = \<lparr> rec = new_Recorder w, runs = [], resolved_at_once = [] \<rparr>"

definition happen :: "event list \<Rightarrow> page \<Rightarrow> page" where
  "happen evs s = fold fire evs s"

section \<open>Concrete inputs\<close>

definition everything_supported :: browser where
  "everything_supported = \<lparr> hasMediaRecorder = True, isTypeSupported = (\<lambda>_. True) \<rparr>"

definition webm_only :: browser where
  "webm_only = \<lparr> hasMediaRecorder = True, isTypeSupported = (\<lambda>m. m = ''video/webm'') \<rparr>"

definition mp4_without_webm :: browser where
  "mp4_without_webm = \<lparr> hasMediaRecorder = True, isTypeSupported = (\<lambda>m. m = ''video/mp4'') \<rparr>"

definition sample_avatar :: gvrm where
  "sample_avatar = \<lparr> fileName = Some ''a/sample1.gvrm'',
     character = Some \<lparr> animationUrl = Some ''a/Idle.fbx'' \<rparr> \<rparr>"

definition spec_preference_order :: "string list" where
  "spec_preference_order = [''video/webm;codecs=h264'', ''video/webm'', ''video/mp4'']"

definition source_preference_order :: "string list" where
  "source_preference_order = [''video/mp4'', ''video/webm;codecs=h264'', ''video/webm'']"

definition chunk_1 :: blob where
  "chunk_1 = Blob [1] ''video/webm''"

text \<open>A clip of 8/60 seconds played at 60 frames per second, in binary64 values: the
  clock reads (the value nearest to) 7/60 on the frame before the loop point and starts
  again from 0 on the next.\<close>

definition short_clip :: double where
  "short_clip = js_div 2 15"

definition loop_clock :: "double list" where
  "loop_clock =
     [js_div 7 60, 0, js_div 1 60, js_div 2 60, js_div 3 60, js_div 4 60, js_div 5 60,
      js_div 6 60, js_div 7 60, 0]"

text \<open>One synchronized recording on that clock, up to and including the capture
  facility's last chunk, and then its \<^verbatim>\<open>stop\<close> event.\<close>

definition capture_events :: "event list" where
  "capture_events =
     [Call_setGVRM (Some sample_avatar), Call_recordAnimation 7 short_clip]
     @ map Fire_animationFrame loop_clock
     @ [Fire_dataavailable chunk_1]"

definition recording_session :: "event list" where
  "recording_session = capture_events @ [Fire_stop]"

text \<open>The key R pressed three times within two seconds: a recording, its end, and the
  start of the next one.\<close>

definition quick_restart :: "event list" where
  "quick_restart = [Call_toggleRecording, Call_toggleRecording, Call_toggleRecording]"

section \<open>Reading the effect log\<close>

text \<open>
  Every \<^verbatim>\<open>PromiseResolved\<close> in a log comes directly after a \<^verbatim>\<open>DownloadClicked\<close>. The
  flag says whether the entry before the list was a download click.
\<close>

fun resolves_follow_downloads :: "bool \<Rightarrow> effect list \<Rightarrow> bool" where
  "resolves_follow_downloads prev [] = True"
| "resolves_follow_downloads prev (PromiseResolved p # es) =
     (prev \<and> resolves_follow_downloads False es)"
| "resolves_follow_downloads prev (DownloadClicked f b # es) = resolves_follow_downloads True es"
| "resolves_follow_downloads prev (e # es) = resolves_follow_downloads False es"

fun is_resolved :: "effect \<Rightarrow> bool" where
  "is_resolved (PromiseResolved p) = True"
| "is_resolved e = False"

text \<open>Histories in which every chunk the capture facility delivers is directly followed
  by its \<^verbatim>\<open>stop\<close> event.\<close>

fun chunk_then_stop :: "event list \<Rightarrow> bool" where
  "chunk_then_stop [] = True"
| "chunk_then_stop (Fire_dataavailable d # Fire_stop # evs) = chunk_then_stop evs"
| "chunk_then_stop (Fire_dataavailable d # evs) = False"
| "chunk_then_stop (e # evs) = chunk_then_stop evs"

text \<open>The buffer the callbacks use is allocated and empty, on a recorder whose
  constructor installed the callbacks.\<close>

definition buffer_ready :: "recorder \<Rightarrow> bool" where
  "buffer_ready r =
     (closure_recordedChunks r < next_addr r \<and> arrays r (closure_recordedChunks r) = []
      \<and> options_mimeType r \<noteq> None)"

section \<open>Reading a run of frames\<close>

text \<open>The number \<^verbatim>\<open>frameCount2\<close> has to exceed.\<close>

definition settleThreshold :: nat where
  "settleThreshold = 5"

text \<open>The index of the first frame whose callbacks register the stop callback.\<close>

fun stop_scheduled_at :: "nat \<Rightarrow> double list \<Rightarrow> recorder \<times> run \<Rightarrow> nat option" where
  "stop_scheduled_at n [] c = None"
| "stop_scheduled_at n (t # ts) c =
     (let c' = animation_frame t c in
      if StopCallback \<in> set (requested (snd c')) then Some n
      else stop_scheduled_at (Suc n) ts c')"

text \<open>
  The spec's reference point for the stop: the first frame on which the look-ahead
  condition holds again, after it has held once (capture started) and then failed (the
  clock wrapped around).
\<close>

fun condition_true_again :: "double \<Rightarrow> nat \<Rightarrow> bool \<Rightarrow> bool \<Rightarrow> double list \<Rightarrow> nat option" where
  "condition_true_again D n started reset [] = None"
| "condition_true_again D n started reset (t # ts) =
     (if \<not> started then condition_true_again D (Suc n) (lookahead t D) False ts
      else if \<not> reset then condition_true_again D (Suc n) True (\<not> lookahead t D) ts
      else if lookahead t D then Some n
      else condition_true_again D (Suc n) True True ts)"

text \<open>The spec's sentence: when both frames exist, the stop is scheduled at least
  \<open>settleThreshold + 2\<close> frames after the condition became true again.\<close>

definition stop_margin_as_stated :: "double \<Rightarrow> double list \<Rightarrow> recorder \<Rightarrow> bool" where
  "stop_margin_as_stated D ts r =
     (case condition_true_again D 0 False False ts of
        None \<Rightarrow> True
      | Some again \<Rightarrow>
          (case stop_scheduled_at 0 ts (r, initial_run D) of
             None \<Rightarrow> True
           | Some scheduled \<Rightarrow> again + (settleThreshold + 2) \<le> scheduled))"

text \<open>The closure variables after the frame that started the capture, and after \<open>j\<close>
  counted frames; both with \<^verbatim>\<open>frameCallback\<close> registered for the next frame.\<close>

definition started_run :: "double \<Rightarrow> run" where
  "started_run D = (initial_run D)\<lparr> recording1Started := True \<rparr>"

definition counting_run :: "double \<Rightarrow> nat \<Rightarrow> run" where
  "counting_run D j = (initial_run D)\<lparr> recording1Started := True, recording2Started := True,
     frameCount2 := j \<rparr>"

section \<open>Facts about the model\<close>

subsection \<open>Strings and file names\<close>

lemma js_split_not_Nil: "js_split c s \<noteq> []"
  by (induction s) (auto split: list.splits)

lemma js_split_pieces: "w \<in> set (js_split c s) \<Longrightarrow> c \<notin> set w \<and> set w \<subseteq> set s"
proof (induction s arbitrary: w)
  case Nil
  then show ?case by simp
next
  case (Cons x xs)
  show ?case
  proof (cases "x = c")
    case True
    with Cons show ?thesis by auto
  next
    case False
    obtain v vs where split: "js_split c xs = v # vs"
      using js_split_not_Nil[of c xs] by (cases "js_split c xs") auto
    from Cons.IH[of v] split have v: "c \<notin> set v" "set v \<subseteq> set xs" by auto
    from Cons.prems False split have "w = x # v \<or> w \<in> set vs" by auto
    then show ?thesis
    proof
      assume "w = x # v"
      with v False show ?thesis by auto
    next
      assume "w \<in> set vs"
      with Cons.IH[of w] split show ?thesis by auto
    qed
  qed
qed

lemma strip_path_clean:
  "CHR ''/'' \<notin> set (strip_path p) \<and> CHR ''.'' \<notin> set (strip_path p)"
proof -
  let ?f = "last (js_split CHR ''/'' p)"
  have f: "?f \<in> set (js_split CHR ''/'' p)"
    by (simp add: js_split_not_Nil)
  have h: "hd (js_split CHR ''.'' ?f) \<in> set (js_split CHR ''.'' ?f)"
    by (simp add: js_split_not_Nil)
  from js_split_pieces[OF f] js_split_pieces[OF h] show ?thesis
    by (auto simp: strip_path_def)
qed

lemma strip_path_sample: "strip_path ''a/sample1.gvrm'' = ''sample1''"
  by (simp add: strip_path_def)

lemma strip_path_idle: "strip_path ''a/Idle.fbx'' = ''Idle''"
  by (simp add: strip_path_def)

subsection \<open>The negotiated type and the finalization callback\<close>

lemma choose_mimeType_cases:
  "choose_mimeType f = Some m \<Longrightarrow>
     m = ''video/mp4'' \<or> m = ''video/webm;codecs=h264'' \<or> m = ''video/webm''"
  by (auto simp: choose_mimeType_def split: if_splits)

lemma new_Recorder_options:
  "options_mimeType (new_Recorder w) = Some m \<Longrightarrow>
     m = ''video/mp4'' \<or> m = ''video/webm;codecs=h264'' \<or> m = ''video/webm''"
  by (auto simp: new_Recorder_def emit_def blank_def dest: choose_mimeType_cases
      split: if_splits option.splits)

lemma fileExt_values:
  "fileExt ''video/mp4'' = ''mp4''"
  "fileExt ''video/webm;codecs=h264'' = ''webm''"
  "fileExt ''video/webm'' = ''webm''"
  by (simp_all add: fileExt_def)

lemma onstop_effects:
  "options_mimeType r = Some m \<Longrightarrow>
   effects (onstop r) =
     effects r @
       DownloadClicked (filename_of (this_gvrm r) @ ''.'' @ fileExt m)
         (new_Blob (arrays r (closure_recordedChunks r)) (if m \<noteq> [] then m else ''video/webm''))
       # (case currentRecordingResolve r of None \<Rightarrow> [] | Some p \<Rightarrow> [PromiseResolved p])"
  by (simp add: onstop_def emit_def Let_def split: option.splits)

(* options invariant *)
subsection \<open>Fields each method leaves alone\<close>

lemma hidePopup_fields [simp]:
  "options_mimeType (hidePopup r) = options_mimeType r"
  "isSupported (hidePopup r) = isSupported r"
  "isRecording (hidePopup r) = isRecording r"
  "currentRecordingResolve (hidePopup r) = currentRecordingResolve r"
  "this_gvrm (hidePopup r) = this_gvrm r"
  "arrays (hidePopup r) = arrays r"
  "next_addr (hidePopup r) = next_addr r"
  "closure_recordedChunks (hidePopup r) = closure_recordedChunks r"
  "this_recordedChunks (hidePopup r) = this_recordedChunks r"
  "popup (hidePopup r) = None"
  by (simp_all add: hidePopup_def emit_def split: option.splits)

lemma showPopup_fields [simp]:
  "options_mimeType (showPopup m b r) = options_mimeType r"
  "isSupported (showPopup m b r) = isSupported r"
  "isRecording (showPopup m b r) = isRecording r"
  "currentRecordingResolve (showPopup m b r) = currentRecordingResolve r"
  "this_gvrm (showPopup m b r) = this_gvrm r"
  "arrays (showPopup m b r) = arrays r"
  "next_addr (showPopup m b r) = next_addr r"
  "closure_recordedChunks (showPopup m b r) = closure_recordedChunks r"
  "this_recordedChunks (showPopup m b r) = this_recordedChunks r"
  "popup (showPopup m b r) = Some (m, b)"
  by (simp_all add: showPopup_def emit_def Let_def)

lemma startRecording_fields [simp]:
  "options_mimeType (startRecording r) = options_mimeType r"
  "isSupported (startRecording r) = isSupported r"
  "currentRecordingResolve (startRecording r) = currentRecordingResolve r"
  "this_gvrm (startRecording r) = this_gvrm r"
  "closure_recordedChunks (startRecording r) = closure_recordedChunks r"
  by (simp_all add: startRecording_def emit_def Let_def)

lemma stopRecording_fields [simp]:
  "options_mimeType (stopRecording r) = options_mimeType r"
  "isSupported (stopRecording r) = isSupported r"
  "currentRecordingResolve (stopRecording r) = currentRecordingResolve r"
  "this_gvrm (stopRecording r) = this_gvrm r"
  "arrays (stopRecording r) = arrays r"
  "next_addr (stopRecording r) = next_addr r"
  "closure_recordedChunks (stopRecording r) = closure_recordedChunks r"
  "this_recordedChunks (stopRecording r) = this_recordedChunks r"
  by (simp_all add: stopRecording_def emit_def Let_def)

lemma toggleRecording_fields [simp]:
  "options_mimeType (toggleRecording r) = options_mimeType r"
  "isSupported (toggleRecording r) = isSupported r"
  "currentRecordingResolve (toggleRecording r) = currentRecordingResolve r"
  "this_gvrm (toggleRecording r) = this_gvrm r"
  "closure_recordedChunks (toggleRecording r) = closure_recordedChunks r"
  by (simp_all add: toggleRecording_def)

lemma ondataavailable_fields [simp]:
  "options_mimeType (ondataavailable d r) = options_mimeType r"
  "isSupported (ondataavailable d r) = isSupported r"
  "isRecording (ondataavailable d r) = isRecording r"
  "currentRecordingResolve (ondataavailable d r) = currentRecordingResolve r"
  "this_gvrm (ondataavailable d r) = this_gvrm r"
  "effects (ondataavailable d r) = effects r"
  "popup (ondataavailable d r) = popup r"
  by (simp_all add: ondataavailable_def split: option.splits)

lemma onstop_fields [simp]:
  "options_mimeType (onstop r) = options_mimeType r"
  "isSupported (onstop r) = isSupported r"
  "isRecording (onstop r) = isRecording r"
  "this_gvrm (onstop r) = this_gvrm r"
  "popup (onstop r) = popup r"
  by (simp_all add: onstop_def emit_def Let_def split: option.splits)


lemma choose_mimeType_find: "choose_mimeType f = find f source_preference_order"
  by (simp add: choose_mimeType_def source_preference_order_def)

subsection \<open>Properties of the recorder kept by every event\<close>

text \<open>
  The frame callbacks touch the recorder only through \<^verbatim>\<open>startRecording\<close> and
  \<^verbatim>\<open>stopRecording\<close>; so a property of the recorder that the methods and the two capture
  callbacks keep is kept by every event, and by every history of the page.
\<close>

lemma frameCallback_preserves:
  assumes "\<And>r. P r \<Longrightarrow> P (startRecording r)" and "P (fst c)"
  shows "P (fst (frameCallback t c))"
  using assms by (simp add: frameCallback_def poll_again_def Let_def split: option.splits)

lemma run_callback_preserves:
  assumes "\<And>r. P r \<Longrightarrow> P (startRecording r)" and "\<And>r. P r \<Longrightarrow> P (stopRecording r)"
    and "P (fst c)"
  shows "P (fst (run_callback t cb c))"
  using assms by (cases cb) (simp_all add: frameCallback_preserves stopCallback_def)

lemma fold_run_callback_preserves:
  assumes "\<And>r. P r \<Longrightarrow> P (startRecording r)" and "\<And>r. P r \<Longrightarrow> P (stopRecording r)"
  shows "P (fst c) \<Longrightarrow> P (fst (fold (run_callback t) cbs c))"
proof (induction cbs arbitrary: c)
  case Nil
  then show ?case by simp
next
  case (Cons cb cbs)
  then show ?case
    using run_callback_preserves[of P c t cb, OF assms] by simp
qed

lemma animation_frame_preserves:
  assumes "\<And>r. P r \<Longrightarrow> P (startRecording r)" and "\<And>r. P r \<Longrightarrow> P (stopRecording r)"
    and "P (fst c)"
  shows "P (fst (animation_frame t c))"
  unfolding animation_frame_def
  using fold_run_callback_preserves[of P, OF assms(1,2)] assms(3) by simp

lemma frame_all_preserves:
  assumes "\<And>r. P r \<Longrightarrow> P (startRecording r)" and "\<And>r. P r \<Longrightarrow> P (stopRecording r)"
  shows "P r \<Longrightarrow> P (fst (frame_all t r us))"
proof (induction us arbitrary: r)
  case Nil
  then show ?case by simp
next
  case (Cons u us)
  have "P (fst (animation_frame t (r, u)))"
    using animation_frame_preserves[of P "(r, u)" t, OF assms] Cons.prems by simp
  then show ?case
    using Cons.IH by (simp add: Let_def)
qed

lemma fire_preserves:
  assumes "\<And>r. P r \<Longrightarrow> P (startRecording r)" and "\<And>r. P r \<Longrightarrow> P (stopRecording r)"
    and "\<And>r g. P r \<Longrightarrow> P (setGVRM g r)"
    and "\<And>r p. P r \<Longrightarrow> isSupported r \<Longrightarrow> P (r\<lparr> currentRecordingResolve := Some p \<rparr>)"
    and "\<And>r d. P r \<Longrightarrow> e = Fire_dataavailable d \<Longrightarrow> P (ondataavailable d r)"
    and "\<And>r. P r \<Longrightarrow> e = Fire_stop \<Longrightarrow> P (onstop r)"
    and "\<And>r. P r \<Longrightarrow> P (hidePopup r)"
    and "P (rec s)"
  shows "P (rec (fire e s))"
proof (cases e)
  case Call_toggleRecording
  then show ?thesis using assms(1,2,8) by (simp add: toggleRecording_def)
next
  case (Call_recordAnimation p D)
  then show ?thesis using assms(4,8) by (simp add: recordAnimation_def)
next
  case (Fire_animationFrame t)
  then show ?thesis
    using frame_all_preserves[of P "rec s" t "runs s", OF assms(1,2,8)] by (simp add: Let_def)
qed (use assms in simp_all)

lemma happen_preserves:
  assumes "\<And>r. P r \<Longrightarrow> P (startRecording r)" and "\<And>r. P r \<Longrightarrow> P (stopRecording r)"
    and "\<And>r g. P r \<Longrightarrow> P (setGVRM g r)"
    and "\<And>r p. P r \<Longrightarrow> isSupported r \<Longrightarrow> P (r\<lparr> currentRecordingResolve := Some p \<rparr>)"
    and "\<And>r d. P r \<Longrightarrow> P (ondataavailable d r)"
    and "\<And>r. P r \<Longrightarrow> P (onstop r)"
    and "\<And>r. P r \<Longrightarrow> P (hidePopup r)"
  shows "P (rec s) \<Longrightarrow> P (rec (happen evs s))"
  unfolding happen_def
proof (induction evs arbitrary: s)
  case Nil
  then show ?case by simp
next
  case (Cons e evs)
  have "P (rec (fire e s))"
  proof (rule fire_preserves[of P e s])
    show "P (rec s)" by (rule Cons.prems)
  qed (use assms in simp_all)
  then show ?case using Cons.IH by simp
qed

lemma happen_options: "options_mimeType (rec (happen evs s)) = options_mimeType (rec s)"
  by (rule happen_preserves[of "\<lambda>r. options_mimeType r = options_mimeType (rec s)"])
     (simp_all add: setGVRM_def)

lemma happen_isSupported: "isSupported (rec (happen evs s)) = isSupported (rec s)"
  by (rule happen_preserves[of "\<lambda>r. isSupported r = isSupported (rec s)"])
     (simp_all add: setGVRM_def)

subsection \<open>The unsupported recorder\<close>

lemma new_Recorder_without_webm:
  "\<not> isTypeSupported w ''video/webm'' \<Longrightarrow>
   new_Recorder w =
     blank\<lparr> effects := [ConsoleWarn ''MediaRecorder or video/webm is not supported on this browser.''] \<rparr>"
  by (simp add: new_Recorder_def emit_def blank_def)

lemma unsupported_stays:
  assumes "\<not> isSupported r0" and "options_mimeType r0 = None" and "popup r0 = None"
    and "\<exists>g. rec s = r0\<lparr> this_gvrm := g \<rparr>"
  shows "\<exists>g. rec (happen evs s) = r0\<lparr> this_gvrm := g \<rparr>"
proof (rule happen_preserves[of "\<lambda>r. \<exists>g. r = r0\<lparr> this_gvrm := g \<rparr>"])
  show "\<exists>g. rec s = r0\<lparr> this_gvrm := g \<rparr>" by (rule assms(4))
qed (use assms(1-3) in \<open>auto simp: startRecording_def stopRecording_def setGVRM_def
      ondataavailable_def onstop_def hidePopup_def\<close>)

subsection \<open>Resolutions in the effect log\<close>

text \<open>
  \<open>rfd_meaning\<close> spells the predicate out: a resolution in a log that satisfies it is
  the first entry only if the flag allows it, and otherwise stands right after a download
  click.
\<close>

lemmas recorder_defs = new_Recorder_def choose_mimeType_def emit_def blank_def
  startRecording_def stopRecording_def toggleRecording_def setGVRM_def showPopup_def
  hidePopup_def ondataavailable_def onstop_def recordAnimation_def Let_def

lemma rfd_snoc:
  "\<not> is_resolved e \<Longrightarrow> resolves_follow_downloads prev (xs @ [e]) = resolves_follow_downloads prev xs"
  by (induction prev xs rule: resolves_follow_downloads.induct) (cases e; simp)+

lemma rfd_snoc_finalization:
  "resolves_follow_downloads prev (xs @ [DownloadClicked f b, PromiseResolved p])
     = resolves_follow_downloads prev xs"
  by (induction prev xs rule: resolves_follow_downloads.induct) simp_all

lemma rfd_meaning:
  "resolves_follow_downloads prev (xs @ PromiseResolved p # ys) \<Longrightarrow>
     (xs = [] \<and> prev) \<or> (\<exists>f b xs'. xs = xs' @ [DownloadClicked f b])"
proof (induction prev xs rule: resolves_follow_downloads.induct)
  case (1 prev)
  then show ?case by simp
next
  case (2 prev q es)
  then show ?case by auto
next
  case (3 prev f b es)
  then show ?case by (cases "es = []") auto
qed auto

lemma rfd_emit:
  "\<not> is_resolved e \<Longrightarrow>
   resolves_follow_downloads b (effects (emit e r)) = resolves_follow_downloads b (effects r)"
  by (simp add: emit_def rfd_snoc)

lemma rfd_hidePopup:
  "resolves_follow_downloads b (effects (hidePopup r)) = resolves_follow_downloads b (effects r)"
  by (simp add: hidePopup_def rfd_emit split: option.splits)

lemma rfd_showPopup:
  "resolves_follow_downloads b (effects (showPopup m f r)) = resolves_follow_downloads b (effects r)"
  by (simp add: showPopup_def Let_def rfd_emit rfd_hidePopup)

lemma rfd_startRecording:
  "resolves_follow_downloads b (effects (startRecording r)) = resolves_follow_downloads b (effects r)"
  by (simp add: startRecording_def Let_def rfd_showPopup rfd_emit)

lemma rfd_stopRecording:
  "resolves_follow_downloads b (effects (stopRecording r)) = resolves_follow_downloads b (effects r)"
  by (simp add: stopRecording_def Let_def rfd_showPopup rfd_hidePopup rfd_emit)

lemma rfd_onstop:
  "resolves_follow_downloads b (effects (onstop r)) = resolves_follow_downloads b (effects r)"
proof (cases "options_mimeType r")
  case None
  then show ?thesis by (simp add: onstop_def)
next
  case (Some m)
  show ?thesis
  proof (cases "currentRecordingResolve r")
    case None
    with onstop_effects[OF Some] show ?thesis by (simp add: rfd_snoc)
  next
    case (Some p)
    with onstop_effects[OF \<open>options_mimeType r = Some m\<close>] show ?thesis
      by (simp add: rfd_snoc_finalization)
  qed
qed

lemma rfd_happen:
  assumes "resolves_follow_downloads b (effects (rec s))"
  shows "resolves_follow_downloads b (effects (rec (happen evs s)))"
  by (rule happen_preserves[of "\<lambda>r. resolves_follow_downloads b (effects r)"])
     (simp_all add: rfd_startRecording rfd_stopRecording rfd_onstop rfd_hidePopup setGVRM_def assms)

lemma filter_emit:
  "\<not> is_resolved e \<Longrightarrow> filter is_resolved (effects (emit e r)) = filter is_resolved (effects r)"
  by (simp add: emit_def)

lemma resolved_hidePopup:
  "filter is_resolved (effects (hidePopup r)) = filter is_resolved (effects r)"
  by (simp add: hidePopup_def filter_emit split: option.splits)

lemma resolved_showPopup:
  "filter is_resolved (effects (showPopup m f r)) = filter is_resolved (effects r)"
  by (simp add: showPopup_def Let_def filter_emit resolved_hidePopup)

lemma resolved_startRecording:
  "filter is_resolved (effects (startRecording r)) = filter is_resolved (effects r)"
  by (simp add: startRecording_def Let_def resolved_showPopup filter_emit)

lemma resolved_stopRecording:
  "filter is_resolved (effects (stopRecording r)) = filter is_resolved (effects r)"
  by (simp add: stopRecording_def Let_def resolved_showPopup resolved_hidePopup filter_emit)

lemma resolved_fire:
  assumes "e \<noteq> Fire_stop"
  shows "filter is_resolved (effects (rec (fire e s))) = filter is_resolved (effects (rec s))"
  by (rule fire_preserves[of "\<lambda>r. filter is_resolved (effects r) = filter is_resolved (effects (rec s))"])
     (simp_all add: resolved_startRecording resolved_stopRecording resolved_hidePopup setGVRM_def assms)

lemma load_page_log: "resolves_follow_downloads False (effects (rec (load_page w)))"
  by (simp add: load_page_def new_Recorder_def emit_def blank_def split: option.splits)

subsection \<open>One synchronized recording, evaluated\<close>

text \<open>
  Rounding decides the test near the loop point. With the clock at the binary64 value
  of 2/60 and a clip of 0.05 seconds the engine's sum rounds up to the duration and the
  test holds, while the exact sum of the same values stays below it.
\<close>

lemma lookahead_rounds_up:
  "lookahead (js_div 2 60) (js_div 1 20)"
  "\<not> js_div 1 20 \<le> js_div 2 60 + 1 / 60"
  by code_simp+

text \<open>The test on the sample clock, computed: it holds at 7/60 only.\<close>

lemma lookahead_loop_clock:
  "lookahead (js_div 7 60) short_clip"
  "\<not> lookahead 0 short_clip"
  "\<not> lookahead (js_div 1 60) short_clip"
  "\<not> lookahead (js_div 2 60) short_clip"
  "\<not> lookahead (js_div 3 60) short_clip"
  "\<not> lookahead (js_div 4 60) short_clip"
  "\<not> lookahead (js_div 5 60) short_clip"
  "\<not> lookahead (js_div 6 60) short_clip"
  by code_simp+

lemmas session_defs = capture_events_def loop_clock_def lookahead_loop_clock happen_def
  load_page_def webm_only_def chunk_1_def sample_avatar_def recorder_defs animation_frame_def
  frameCallback_def poll_again_def clock_readable_def stopCallback_def requestAnimationFrame_def
  initial_run_def size_of_def new_Blob_def filename_of_def fileExt_values strip_path_sample strip_path_idle

lemma capture_effects:
  "effects (rec (happen capture_events (load_page webm_only))) =
     [ConsoleLog ''Using codec: video/webm'', ConsoleLog ''start recording'',
      MediaRecorderStart, PopupAppended recording_message True,
      ConsoleLog ''stop recording'', MediaRecorderStop, PopupRemoved,
      PopupAppended ''Recording stopped'' False, SetTimeout 2000]"
  by (simp add: session_defs)

lemma capture_pending:
  "options_mimeType (rec (happen capture_events (load_page webm_only))) = Some ''video/webm''"
  "currentRecordingResolve (rec (happen capture_events (load_page webm_only))) = Some 7"
  by (simp_all add: session_defs)

lemma session_effects:
  "effects (rec (happen recording_session (load_page webm_only))) =
     [ConsoleLog ''Using codec: video/webm'', ConsoleLog ''start recording'',
      MediaRecorderStart, PopupAppended recording_message True,
      ConsoleLog ''stop recording'', MediaRecorderStop, PopupRemoved,
      PopupAppended ''Recording stopped'' False, SetTimeout 2000,
      DownloadClicked ''recording_sample1_Idle.webm'' (Blob [1] ''video/webm''),
      PromiseResolved 7]"
  by (simp add: recording_session_def session_defs)

subsection \<open>The phases of the frame callback\<close>

text \<open>
  One frame in each phase: waiting for the loop point, the start frame, the armed frame,
  a counted frame, the frame that registers the stop callback, and the frame that runs it.
\<close>

lemma clock_readable_kept [simp]:
  "clock_readable (startRecording r) = clock_readable r"
  "clock_readable (stopRecording r) = clock_readable r"
  by (simp_all add: clock_readable_def)

lemmas frame_defs = animation_frame_def frameCallback_def poll_again_def stopCallback_def
  requestAnimationFrame_def initial_run_def started_run_def counting_run_def Let_def

lemma frame_waiting:
  "clock_readable r \<Longrightarrow> \<not> lookahead t D \<Longrightarrow>
   animation_frame t (r, initial_run D) = (r, initial_run D)"
  by (auto simp: frame_defs split: option.splits)

lemma frame_start:
  "clock_readable r \<Longrightarrow> lookahead t D \<Longrightarrow>
   animation_frame t (r, initial_run D) = (startRecording r, started_run D)"
  by (auto simp: frame_defs split: option.splits)

lemma frame_armed:
  "animation_frame t (r, started_run D) = (r, counting_run D 0)"
  by (simp add: frame_defs)

lemma frame_counting:
  "clock_readable r \<Longrightarrow> \<not> (lookahead t D \<and> Suc j > 5) \<Longrightarrow>
   animation_frame t (r, counting_run D j) = (r, counting_run D (Suc j))"
  by (auto simp: frame_defs split: option.splits)

lemma frame_schedules_stop:
  "clock_readable r \<Longrightarrow> lookahead t D \<Longrightarrow> Suc j > 5 \<Longrightarrow>
   animation_frame t (r, counting_run D j)
     = (r, (counting_run D (Suc j))\<lparr> requested := [StopCallback, FrameCallback] \<rparr>)"
  by (auto simp: frame_defs split: option.splits)

lemma frame_runs_stop:
  "clock_readable r \<Longrightarrow>
   animation_frame t (r, (counting_run D j)\<lparr> requested := [StopCallback, FrameCallback] \<rparr>)
     = (stopRecording r,
        (counting_run D (Suc j))\<lparr> recordingFinished := True,
           requested := (if lookahead t D \<and> Suc j > 5 then [StopCallback] else []) \<rparr>)"
  by (auto simp: frame_defs split: option.splits)

text \<open>A frame on which the clock cannot be read ends the polling.\<close>

lemma frame_clock_unreadable:
  "\<not> clock_readable r \<Longrightarrow>
   animation_frame t (r, initial_run D) = (r, (initial_run D)\<lparr> requested := [], threw := True \<rparr>)"
  "\<not> clock_readable r \<Longrightarrow>
   animation_frame t (r, counting_run D j)
     = (r, (counting_run D (Suc j))\<lparr> requested := [], threw := True \<rparr>)"
  by (simp_all add: frame_defs)

lemma frames_waiting:
  "clock_readable r \<Longrightarrow> \<forall>t\<in>set ts. \<not> lookahead t D \<Longrightarrow>
   animation_frames ts (r, initial_run D) = (r, initial_run D)"
  by (induction ts) (simp_all add: animation_frames_def frame_waiting)

lemma frames_append:
  "animation_frames (xs @ ys) c = animation_frames ys (animation_frames xs c)"
  by (simp add: animation_frames_def)

lemma frames_counting:
  assumes avatar: "clock_readable r"
  shows "\<forall>i<length ts. \<not> (lookahead (ts ! i) D \<and> j + i \<ge> 5) \<Longrightarrow>
   animation_frames ts (r, counting_run D j) = (r, counting_run D (j + length ts))"
proof (induction ts arbitrary: j)
  case Nil
  then show ?case by (simp add: animation_frames_def)
next
  case (Cons t ts)
  from Cons.prems have head: "\<not> (lookahead t D \<and> Suc j > 5)" by fastforce
  have tail: "\<forall>i<length ts. \<not> (lookahead (ts ! i) D \<and> Suc j + i \<ge> 5)"
  proof (intro allI impI)
    fix i assume "i < length ts"
    with Cons.prems have "\<not> (lookahead ((t # ts) ! Suc i) D \<and> j + Suc i \<ge> 5)" by force
    then show "\<not> (lookahead (ts ! i) D \<and> Suc j + i \<ge> 5)" by simp
  qed
  have "animation_frames (t # ts) (r, counting_run D j)
      = animation_frames ts (animation_frame t (r, counting_run D j))"
    by (simp add: animation_frames_def)
  also have "\<dots> = animation_frames ts (r, counting_run D (Suc j))"
    by (simp add: frame_counting[OF avatar head])
  also have "\<dots> = (r, counting_run D (Suc j + length ts))"
    by (rule Cons.IH[OF tail])
  finally show ?case by simp
qed


subsection \<open>What a registered stop callback tells about its frame\<close>

lemma run_callback_duration:
  "animationDuration (snd (run_callback t cb c)) = animationDuration (snd c)"
  by (cases cb)
     (simp_all add: frameCallback_def poll_again_def stopCallback_def requestAnimationFrame_def
        Let_def split: option.splits)

lemma run_callback_stop_requested:
  assumes "StopCallback \<in> set (requested (snd c)) \<longrightarrow> lookahead t (animationDuration (snd c))"
  shows "StopCallback \<in> set (requested (snd (run_callback t cb c)))
           \<longrightarrow> lookahead t (animationDuration (snd c))"
  using assms
  by (cases cb)
     (auto simp: frameCallback_def poll_again_def stopCallback_def requestAnimationFrame_def Let_def
        split: if_splits option.splits)

lemma fold_callbacks_stop_requested:
  "(StopCallback \<in> set (requested (snd c)) \<longrightarrow> lookahead t (animationDuration (snd c))) \<Longrightarrow>
   (StopCallback \<in> set (requested (snd (fold (run_callback t) cbs c)))
      \<longrightarrow> lookahead t (animationDuration (snd c)))
   \<and> animationDuration (snd (fold (run_callback t) cbs c)) = animationDuration (snd c)"
proof (induction cbs arbitrary: c)
  case Nil
  then show ?case by simp
next
  case (Cons cb cbs)
  from run_callback_stop_requested[OF Cons.prems, of cb]
  have "StopCallback \<in> set (requested (snd (run_callback t cb c)))
          \<longrightarrow> lookahead t (animationDuration (snd (run_callback t cb c)))"
    by (simp add: run_callback_duration)
  from Cons.IH[OF this] show ?case
    by (simp add: run_callback_duration)
qed

lemma frame_stop_requested:
  "StopCallback \<in> set (requested (snd (animation_frame t c))) \<Longrightarrow>
   lookahead t (animationDuration (snd c))"
  using fold_callbacks_stop_requested[of "(fst c, (snd c)\<lparr> requested := [] \<rparr>)" t "requested (snd c)"]
  by (simp add: animation_frame_def)

lemma frame_duration:
  "animationDuration (snd (animation_frame t c)) = animationDuration (snd c)"
  using fold_callbacks_stop_requested[of "(fst c, (snd c)\<lparr> requested := [] \<rparr>)" t "requested (snd c)"]
  by (simp add: animation_frame_def)

lemma frames_duration:
  "animationDuration (snd (animation_frames ts c)) = animationDuration (snd c)"
  by (induction ts arbitrary: c) (simp_all add: animation_frames_def frame_duration)

subsection \<open>Frames by index\<close>

text \<open>
  The frames after the one that started the capture: the first arms, the others count,
  as long as the look-ahead condition fails from the seventh of them on.
\<close>

lemma frames_after_start:
  assumes avatar: "clock_readable r"
    and "mid \<noteq> []" and "\<forall>i<length mid. 6 \<le> i \<longrightarrow> \<not> lookahead (mid ! i) D"
  shows "animation_frames mid (r, started_run D) = (r, counting_run D (length mid - 1))"
proof -
  from assms(2) obtain a rest where mid: "mid = a # rest" by (cases mid) auto
  have "\<forall>i<length rest. \<not> (lookahead (rest ! i) D \<and> 0 + i \<ge> 5)"
  proof (intro allI impI)
    fix i assume i: "i < length rest"
    show "\<not> (lookahead (rest ! i) D \<and> 0 + i \<ge> 5)"
    proof
      assume h: "lookahead (rest ! i) D \<and> 0 + i \<ge> 5"
      with assms(3) mid i have "\<not> lookahead (mid ! Suc i) D" by auto
      with h mid show False by simp
    qed
  qed
  from frames_counting[OF avatar this] show ?thesis
    by (simp add: mid animation_frames_def frame_armed)
qed

lemma frames_after_start_short:
  assumes "clock_readable r" and "mid \<noteq> []" and "length mid \<le> 6"
  shows "animation_frames mid (r, started_run D) = (r, counting_run D (length mid - 1))"
  by (rule frames_after_start) (use assms in auto)


lemma take_Suc_split:
  assumes "k \<le> n" and "n < length ts"
  shows "take (Suc n) ts = take k ts @ ts ! k # take (n - k) (drop (Suc k) ts)"
proof -
  from assms have k: "k < length ts" by simp
  have "take (Suc n) ts = take (Suc n) (take k ts @ ts ! k # drop (Suc k) ts)"
    using id_take_nth_drop[OF k] by simp
  also have "\<dots> = take k ts @ take (Suc n - k) (ts ! k # drop (Suc k) ts)"
    using assms by (simp add: min_def)
  also have "Suc n - k = Suc (n - k)"
    using assms by simp
  finally show ?thesis by simp
qed

lemma frames_until_start:
  assumes avatar: "clock_readable r"
    and "k < length ts" and "\<forall>i<k. \<not> lookahead (ts ! i) D" and "lookahead (ts ! k) D"
  shows "animation_frames (take k ts) (r, initial_run D) = (r, initial_run D)"
    and "animation_frames (take (Suc k) ts) (r, initial_run D) = (startRecording r, started_run D)"
proof -
  have "\<forall>t\<in>set (take k ts). \<not> lookahead t D"
    using assms(2,3) by (auto simp: in_set_conv_nth)
  then show a: "animation_frames (take k ts) (r, initial_run D) = (r, initial_run D)"
    by (rule frames_waiting[OF avatar])
  have "take (Suc k) ts = take k ts @ [ts ! k]"
    using assms(2) by (simp add: take_Suc_conv_app_nth)
  then show "animation_frames (take (Suc k) ts) (r, initial_run D) = (startRecording r, started_run D)"
    using a assms(4) avatar by (simp add: frames_append animation_frames_def frame_start)
qed

lemma frames_until_counting:
  assumes avatar: "clock_readable r"
    and kn: "k < n" and n: "n < length ts"
    and before: "\<forall>i<k. \<not> lookahead (ts ! i) D" and at_k: "lookahead (ts ! k) D"
    and later: "\<forall>i. k + 7 \<le> i \<and> i \<le> n \<longrightarrow> \<not> lookahead (ts ! i) D"
  shows "animation_frames (take (Suc n) ts) (r, initial_run D)
           = (startRecording r, counting_run D (n - k - 1))"
proof -
  let ?mid = "take (n - k) (drop (Suc k) ts)"
  have len: "length ?mid = n - k" using kn n by simp
  have nonempty: "?mid \<noteq> []" using len kn by auto
  have quiet: "\<forall>i<length ?mid. 6 \<le> i \<longrightarrow> \<not> lookahead (?mid ! i) D"
  proof (intro allI impI)
    fix i assume i: "i < length ?mid" and six: "6 \<le> i"
    then have "?mid ! i = ts ! (Suc k + i)" using n by simp
    moreover have "i < n - k" using i len by simp
    then have "k + 7 \<le> Suc k + i \<and> Suc k + i \<le> n" using six by arith
    ultimately show "\<not> lookahead (?mid ! i) D" using later by simp
  qed
  have k: "k < length ts" using kn n by simp
  have started: "clock_readable (startRecording r)" using avatar by (simp add: clock_readable_def)
  have "take (Suc n) ts = take (Suc k) ts @ ?mid"
    using take_Suc_split[of k n ts] kn n k by (simp add: take_Suc_conv_app_nth)
  then have "animation_frames (take (Suc n) ts) (r, initial_run D)
      = animation_frames ?mid (startRecording r, started_run D)"
    using frames_until_start(2)[OF avatar k before at_k] by (simp add: frames_append)
  also have "\<dots> = (startRecording r, counting_run D (length ?mid - 1))"
    by (rule frames_after_start[OF started nonempty quiet])
  finally show ?thesis using len by simp
qed

subsection \<open>What startRecording does, and the capture buffer\<close>

text \<open>
  On a supported recorder that is not recording, \<^verbatim>\<open>startRecording\<close> starts the
  MediaRecorder, sets the flag and shows the indicator without setting a timer of its
  own. The array it creates is bound to the property \<^verbatim>\<open>this.recordedChunks\<close> only; the
  array the callbacks fill is the same before and after.
\<close>

lemma startRecording_effects:
  assumes "isSupported r" and "\<not> isRecording r"
  shows "isRecording (startRecording r)"
    and "popup (startRecording r) = Some (recording_message, True)"
    and "effects (startRecording r) =
           effects r @ [ConsoleLog ''start recording'', MediaRecorderStart]
             @ (case popup r of None \<Rightarrow> [] | Some _ \<Rightarrow> [PopupRemoved])
             @ [PopupAppended recording_message True]"
    and "this_recordedChunks (startRecording r) = Some (next_addr r)"
    and "arrays (startRecording r) (next_addr r) = []"
  using assms
  by (simp_all add: startRecording_def showPopup_def hidePopup_def emit_def Let_def split: option.splits)

lemma startRecording_leaves_capture_buffer:
  assumes "closure_recordedChunks r < next_addr r"
  shows "arrays (startRecording r) (closure_recordedChunks (startRecording r))
           = arrays r (closure_recordedChunks r)"
  using assms by (simp add: startRecording_def Let_def emit_def)

text \<open>
  The buffer is emptied by \<^verbatim>\<open>onstop\<close>. On a history in which every chunk is directly
  followed by the \<^verbatim>\<open>stop\<close> event (the order in which a MediaRecorder started without a
  time slice delivers them), the buffer is empty after every event, so it is empty
  whenever \<^verbatim>\<open>startRecording\<close> runs.
\<close>

lemma chunk_then_stop_cases:
  assumes "chunk_then_stop (e # evs)"
  shows "(\<exists>d rest. e = Fire_dataavailable d \<and> evs = Fire_stop # rest \<and> chunk_then_stop rest)
       \<or> ((\<forall>d. e \<noteq> Fire_dataavailable d) \<and> chunk_then_stop evs)"
proof (cases e)
  case (Fire_dataavailable d)
  show ?thesis
  proof (cases evs)
    case Nil
    with Fire_dataavailable assms show ?thesis by simp
  next
    case (Cons a rest)
    with Fire_dataavailable assms show ?thesis by (cases a) simp_all
  qed
qed (use assms in simp_all)

lemma buffer_ready_step:
  assumes "\<forall>d. e \<noteq> Fire_dataavailable d" and "buffer_ready (rec s)"
  shows "buffer_ready (rec (fire e s))"
proof (rule fire_preserves[of buffer_ready e s])
  show "buffer_ready (rec s)" by (rule assms(2))
qed (use assms(1) in \<open>auto simp: buffer_ready_def startRecording_def stopRecording_def emit_def
      Let_def setGVRM_def onstop_def hidePopup_def split: option.splits\<close>)

lemma buffer_ready_finalization:
  assumes "options_mimeType r \<noteq> None"
  shows "buffer_ready (onstop (ondataavailable d r))"
  using assms
  by (auto simp: buffer_ready_def onstop_def ondataavailable_def emit_def Let_def split: option.splits)

lemma capture_buffer_empty:
  "chunk_then_stop evs \<Longrightarrow> buffer_ready (rec s) \<Longrightarrow> buffer_ready (rec (happen evs s))"
proof (induction "length evs" arbitrary: evs s rule: less_induct)
  case less
  show ?case
  proof (cases evs)
    case Nil
    with less.prems show ?thesis by (simp add: happen_def)
  next
    case (Cons e rest)
    from chunk_then_stop_cases[OF less.prems(1)[unfolded Cons]]
    consider d rest' where "e = Fire_dataavailable d" "rest = Fire_stop # rest'" "chunk_then_stop rest'"
      | "\<forall>d. e \<noteq> Fire_dataavailable d" "chunk_then_stop rest"
      by blast
    then show ?thesis
    proof cases
      case 1
      have "options_mimeType (rec s) \<noteq> None"
        using less.prems(2) by (simp add: buffer_ready_def)
      from buffer_ready_finalization[OF this, of d]
      have ready: "buffer_ready (rec (fire Fire_stop (fire (Fire_dataavailable d) s)))" by simp
      have "length rest' < length evs" using Cons 1 by simp
      from less.hyps[OF this 1(3) ready] show ?thesis
        using Cons 1 by (simp add: happen_def)
    next
      case 2
      have ready: "buffer_ready (rec (fire e s))"
        by (rule buffer_ready_step[OF 2(1) less.prems(2)])
      have "length rest < length evs" using Cons by simp
      from less.hyps[OF this 2(2) ready] show ?thesis
        using Cons by (simp add: happen_def)
    qed
  qed
qed

lemma buffer_ready_load:
  "isSupported (new_Recorder w) \<Longrightarrow> buffer_ready (rec (load_page w))"
  by (auto simp: buffer_ready_def load_page_def new_Recorder_def emit_def blank_def
      split: if_splits option.splits)

text \<open>
  Claim C1, as amended. The look-ahead condition is the code's test
  \<^verbatim>\<open>time + 1.0/60 >= D\<close>, in the engine's arithmetic (\<open>lookahead\<close>); the avatar stays
  attached during the run, so that the clock can be read. Let frame \<open>k\<close> be the first polled frame on which the
  condition holds. Up to frame \<open>k\<close> nothing happens; frame \<open>k\<close> calls
  \<^verbatim>\<open>startRecording\<close>. The settle counter counts frames from the second frame after
  \<open>k\<close>, not from the frame on which the condition holds again: a frame \<open>n\<close> registers
  the stop callback only if \<open>n \<ge> k + settleThreshold + 2\<close> and the condition holds on
  frame \<open>n\<close> itself. The first such frame \<open>m\<close> does register it, leaving the recorder as
  \<^verbatim>\<open>startRecording\<close> left it, and \<^verbatim>\<open>stopRecording\<close> runs on frame \<open>m + 1\<close>.
\<close>

theorem C1_capture_window:
  assumes avatar: "clock_readable r"
    and k: "k < length ts"
    and before: "\<forall>i<k. \<not> lookahead (ts ! i) D"
    and at_k: "lookahead (ts ! k) D"
  shows "animation_frames (take k ts) (r, initial_run D) = (r, initial_run D)
       \<and> animation_frames (take (Suc k) ts) (r, initial_run D) = (startRecording r, started_run D)
       \<and> (\<forall>n<length ts.
             StopCallback \<in> set (requested (snd (animation_frames (take (Suc n) ts) (r, initial_run D))))
             \<longrightarrow> k + (settleThreshold + 2) \<le> n \<and> lookahead (ts ! n) D)
       \<and> (\<forall>m. k + (settleThreshold + 2) \<le> m \<and> Suc m < length ts \<and> lookahead (ts ! m) D
              \<and> (\<forall>i. k + (settleThreshold + 2) \<le> i \<and> i < m \<longrightarrow> \<not> lookahead (ts ! i) D)
             \<longrightarrow> animation_frames (take (Suc m) ts) (r, initial_run D)
                   = (startRecording r,
                      (counting_run D (m - k - 1))\<lparr> requested := [StopCallback, FrameCallback] \<rparr>)
                 \<and> fst (animation_frames (take (Suc (Suc m)) ts) (r, initial_run D))
                   = stopRecording (startRecording r)
                 \<and> recordingFinished (snd (animation_frames (take (Suc (Suc m)) ts) (r, initial_run D))))"
proof (intro conjI allI impI)
  show "animation_frames (take k ts) (r, initial_run D) = (r, initial_run D)"
    by (rule frames_until_start(1)[OF avatar k before at_k])
  show "animation_frames (take (Suc k) ts) (r, initial_run D) = (startRecording r, started_run D)"
    by (rule frames_until_start(2)[OF avatar k before at_k])
next
  fix n
  assume n: "n < length ts"
    and stop: "StopCallback \<in> set (requested (snd (animation_frames (take (Suc n) ts) (r, initial_run D))))"
  show "k + (settleThreshold + 2) \<le> n"
  proof (rule ccontr)
    assume "\<not> k + (settleThreshold + 2) \<le> n"
    then have early: "n < k + 7" by (simp add: settleThreshold_def)
    consider "n < k" | "n = k" | "k < n"
      by arith
    then have "requested (snd (animation_frames (take (Suc n) ts) (r, initial_run D))) = [FrameCallback]"
    proof cases
      case 1
      then have "\<forall>t\<in>set (take (Suc n) ts). \<not> lookahead t D"
        using before n by (auto simp: in_set_conv_nth)
      from frames_waiting[OF avatar this] show ?thesis by (simp add: initial_run_def)
    next
      case 2
      with frames_until_start(2)[OF avatar k before at_k] show ?thesis
        by (simp add: started_run_def initial_run_def)
    next
      case 3
      have "\<forall>i. k + 7 \<le> i \<and> i \<le> n \<longrightarrow> \<not> lookahead (ts ! i) D"
        using early by auto
      from frames_until_counting[OF avatar 3 n before at_k this] show ?thesis
        by (simp add: counting_run_def initial_run_def)
    qed
    with stop show False by simp
  qed
  have "take (Suc n) ts = take n ts @ [ts ! n]"
    using n by (simp add: take_Suc_conv_app_nth)
  then have "animation_frames (take (Suc n) ts) (r, initial_run D)
      = animation_frame (ts ! n) (animation_frames (take n ts) (r, initial_run D))"
    by (simp add: frames_append animation_frames_def)
  with stop have "lookahead (ts ! n) (animationDuration (snd (animation_frames (take n ts) (r, initial_run D))))"
    by (simp add: frame_stop_requested)
  then show "lookahead (ts ! n) D"
    by (simp add: frames_duration initial_run_def)
next
  fix m
  assume m: "k + (settleThreshold + 2) \<le> m \<and> Suc m < length ts \<and> lookahead (ts ! m) D
              \<and> (\<forall>i. k + (settleThreshold + 2) \<le> i \<and> i < m \<longrightarrow> \<not> lookahead (ts ! i) D)"
  then have late: "k + 7 \<le> m" and len: "Suc m < length ts" and hit: "lookahead (ts ! m) D"
    and quiet: "\<forall>i. k + 7 \<le> i \<and> i < m \<longrightarrow> \<not> lookahead (ts ! i) D"
    by (simp_all add: settleThreshold_def)
  have started: "clock_readable (startRecording r)" using avatar by simp
  have prior: "animation_frames (take m ts) (r, initial_run D)
      = (startRecording r, counting_run D (m - k - 2))"
  proof -
    have a: "k < m - 1" and b: "m - 1 < length ts" using late len by simp_all
    have c: "\<forall>i. k + 7 \<le> i \<and> i \<le> m - 1 \<longrightarrow> \<not> lookahead (ts ! i) D"
      using quiet late by auto
    from frames_until_counting[OF avatar a b before at_k c] late show ?thesis
      by (simp add: numeral_2_eq_2)
  qed
  have split1: "take (Suc m) ts = take m ts @ [ts ! m]"
    using len by (simp add: take_Suc_conv_app_nth)
  have count: "Suc (m - k - 2) = m - k - 1" "Suc (m - k - 2) > 5"
    using late by simp_all
  show at_m: "animation_frames (take (Suc m) ts) (r, initial_run D)
        = (startRecording r,
           (counting_run D (m - k - 1))\<lparr> requested := [StopCallback, FrameCallback] \<rparr>)"
    using frame_schedules_stop[OF started hit count(2)] prior count(1)
    by (simp add: split1 frames_append animation_frames_def)
  have split2: "take (Suc (Suc m)) ts = take (Suc m) ts @ [ts ! Suc m]"
    using len by (simp add: take_Suc_conv_app_nth)
  have after: "animation_frames (take (Suc (Suc m)) ts) (r, initial_run D)
      = animation_frame (ts ! Suc m) (startRecording r,
           (counting_run D (m - k - 1))\<lparr> requested := [StopCallback, FrameCallback] \<rparr>)"
    using at_m by (simp add: split2 frames_append animation_frames_def)
  show "fst (animation_frames (take (Suc (Suc m)) ts) (r, initial_run D))
      = stopRecording (startRecording r)"
    by (simp add: after frame_runs_stop[OF started])
  show "recordingFinished (snd (animation_frames (take (Suc (Suc m)) ts) (r, initial_run D)))"
    by (simp add: after frame_runs_stop[OF started])
qed

theorem C1_capture_window_witness:
  "clock_readable (setGVRM (Some sample_avatar) (new_Recorder webm_only))
   \<and> 0 < length loop_clock \<and> lookahead (loop_clock ! 0) short_clip
   \<and> animation_frames (take (Suc 0) loop_clock)
         (setGVRM (Some sample_avatar) (new_Recorder webm_only), initial_run short_clip)
       = (startRecording (setGVRM (Some sample_avatar) (new_Recorder webm_only)),
          started_run short_clip)
   \<and> 0 + (settleThreshold + 2) \<le> (8::nat) \<and> lookahead (loop_clock ! 8) short_clip
   \<and> fst (animation_frames (take (Suc (Suc 8)) loop_clock)
            (setGVRM (Some sample_avatar) (new_Recorder webm_only), initial_run short_clip))
       = stopRecording (startRecording (setGVRM (Some sample_avatar) (new_Recorder webm_only)))"
proof -
  have avatar: "clock_readable (setGVRM (Some sample_avatar) (new_Recorder webm_only))"
    by (simp add: clock_readable_def setGVRM_def sample_avatar_def)
  have len: "0 < length loop_clock" by (simp add: loop_clock_def)
  have none: "\<forall>i<0. \<not> lookahead (loop_clock ! i) short_clip" by simp
  have first: "lookahead (loop_clock ! 0) short_clip"
    by (simp add: loop_clock_def lookahead_loop_clock)
  have again: "lookahead (loop_clock ! 8) short_clip"
    by (simp add: loop_clock_def lookahead_loop_clock)
  have margin: "0 + (settleThreshold + 2) \<le> (8::nat)" by (simp add: settleThreshold_def)
  have quiet: "\<forall>i. 0 + (settleThreshold + 2) \<le> i \<and> i < 8 \<longrightarrow> \<not> lookahead (loop_clock ! i) short_clip"
  proof (intro allI impI)
    fix i :: nat assume "0 + (settleThreshold + 2) \<le> i \<and> i < 8"
    then have "i = 7" by (simp add: settleThreshold_def)
    then show "\<not> lookahead (loop_clock ! i) short_clip"
      by (simp add: loop_clock_def lookahead_loop_clock)
  qed
  have room: "Suc 8 < length loop_clock" by (simp add: loop_clock_def)
  from C1_capture_window[OF avatar len none first]
    margin room again quiet len first avatar
  show ?thesis by blast
qed

text \<open>
  Claim C1 as stated fails. On a clip of 8 frames the condition holds on frame 0, fails
  from frame 1 on, and holds again on frame 8; the stop callback is registered on that
  very frame 8, not \<open>settleThreshold + 2 = 7\<close> frames later.
\<close>

theorem C1_stop_margin_counterexample:
  "\<not> stop_margin_as_stated short_clip loop_clock
        (setGVRM (Some sample_avatar) (new_Recorder webm_only))
   \<and> condition_true_again short_clip 0 False False loop_clock = Some 8
   \<and> stop_scheduled_at 0 loop_clock
        (setGVRM (Some sample_avatar) (new_Recorder webm_only), initial_run short_clip) = Some 8"
proof -
  have a: "condition_true_again short_clip 0 False False loop_clock = Some 8"
    by (simp add: loop_clock_def lookahead_loop_clock)
  have b: "stop_scheduled_at 0 loop_clock
        (setGVRM (Some sample_avatar) (new_Recorder webm_only), initial_run short_clip) = Some 8"
    by (simp add: loop_clock_def lookahead_loop_clock frame_defs clock_readable_def setGVRM_def
          sample_avatar_def)
  show ?thesis
    by (simp add: stop_margin_as_stated_def a b settleThreshold_def)
qed

text \<open>
  Claim C2. A promise handed out by \<^verbatim>\<open>recordAnimation\<close> past its guard has its
  \<^verbatim>\<open>resolve\<close> stored in \<^verbatim>\<open>currentRecordingResolve\<close> and nowhere else. In every history
  of the page (calls, capture events, timers and animation frames in any order) each
  \<^verbatim>\<open>PromiseResolved\<close> in the log comes directly after the \<^verbatim>\<open>DownloadClicked\<close> of the same
  \<^verbatim>\<open>onstop\<close>, which has assembled the blob by then. No event other than the capture
  facility's \<^verbatim>\<open>stop\<close> resolves anything: in particular no animation frame does. And
  \<^verbatim>\<open>onstop\<close> with a stored resolver logs the download, then the resolution of exactly
  that promise, and empties the slot.
\<close>

theorem C2_resolution_after_finalization:
  "resolves_follow_downloads False (effects (rec (happen evs (load_page w))))
   \<and> (e \<noteq> Fire_stop \<longrightarrow>
         filter is_resolved (effects (rec (fire e s))) = filter is_resolved (effects (rec s)))
   \<and> (options_mimeType r = Some m \<and> currentRecordingResolve r = Some p \<longrightarrow>
         (\<exists>f b. effects (onstop r) = effects r @ [DownloadClicked f b, PromiseResolved p])
         \<and> currentRecordingResolve (onstop r) = None)
   \<and> (isSupported r \<and> this_gvrm r \<noteq> None \<longrightarrow>
         recordAnimation p D r = Polling (r\<lparr> currentRecordingResolve := Some p \<rparr>) (initial_run D))"
proof -
  have a: "resolves_follow_downloads False (effects (rec (happen evs (load_page w))))"
    by (rule rfd_happen) (rule load_page_log)
  have b: "e \<noteq> Fire_stop \<longrightarrow>
         filter is_resolved (effects (rec (fire e s))) = filter is_resolved (effects (rec s))"
    by (simp add: resolved_fire)
  have c: "options_mimeType r = Some m \<and> currentRecordingResolve r = Some p \<longrightarrow>
         (\<exists>f b. effects (onstop r) = effects r @ [DownloadClicked f b, PromiseResolved p])
         \<and> currentRecordingResolve (onstop r) = None"
    by (auto simp: onstop_effects) (simp add: onstop_def Let_def emit_def)
  have d: "isSupported r \<and> this_gvrm r \<noteq> None \<longrightarrow>
         recordAnimation p D r = Polling (r\<lparr> currentRecordingResolve := Some p \<rparr>) (initial_run D)"
    by (simp add: recordAnimation_def)
  from a b c d show ?thesis by blast
qed

theorem C2_resolution_after_finalization_witness:
  "resolves_follow_downloads False (effects (rec (happen recording_session (load_page webm_only))))
   \<and> effects (rec (happen recording_session (load_page webm_only))) =
      [ConsoleLog ''Using codec: video/webm'', ConsoleLog ''start recording'',
       MediaRecorderStart, PopupAppended recording_message True,
       ConsoleLog ''stop recording'', MediaRecorderStop, PopupRemoved,
       PopupAppended ''Recording stopped'' False, SetTimeout 2000,
       DownloadClicked ''recording_sample1_Idle.webm'' (Blob [1] ''video/webm''),
       PromiseResolved 7]
   \<and> options_mimeType (rec (happen capture_events (load_page webm_only))) = Some ''video/webm''
   \<and> currentRecordingResolve (rec (happen capture_events (load_page webm_only))) = Some 7
   \<and> (\<exists>f b. effects (onstop (rec (happen capture_events (load_page webm_only)))) =
          effects (rec (happen capture_events (load_page webm_only)))
            @ [DownloadClicked f b, PromiseResolved 7])
   \<and> currentRecordingResolve (onstop (rec (happen capture_events (load_page webm_only)))) = None
   \<and> Fire_animationFrame 0 \<noteq> Fire_stop
   \<and> filter is_resolved (effects (rec (fire (Fire_animationFrame 0)
          (happen capture_events (load_page webm_only)))))
       = filter is_resolved (effects (rec (happen capture_events (load_page webm_only))))"
proof -
  have e: "Fire_animationFrame 0 \<noteq> Fire_stop" by simp
  from C2_resolution_after_finalization[of recording_session webm_only "Fire_animationFrame 0"
      "happen capture_events (load_page webm_only)"
      "rec (happen capture_events (load_page webm_only))" "''video/webm''" 7]
    session_effects capture_pending e
  show ?thesis by blast
qed

text \<open>
  Claim C3, at an input where the code departs from it. The key R is pressed three times
  within two seconds. The second press stops the first recording and shows
  "Recording stopped" with its two-second timer; the third starts the next recording and
  shows the indicator, which \<^verbatim>\<open>showPopup\<close> means to stay ("Auto-hide after 2 seconds if
  not recording"). The timer of the second press is still pending and is never
  cancelled: when it fires, \<^verbatim>\<open>hidePopup\<close> removes the indicator while \<^verbatim>\<open>isRecording\<close> is
  true.
\<close>

theorem C3_indicator_removed_by_stale_timer:
  "effects (rec (happen quick_restart (load_page webm_only))) =
     [ConsoleLog ''Using codec: video/webm'',
      ConsoleLog ''start recording'', MediaRecorderStart, PopupAppended recording_message True,
      ConsoleLog ''stop recording'', MediaRecorderStop, PopupRemoved,
      PopupAppended ''Recording stopped'' False, SetTimeout 2000,
      ConsoleLog ''start recording'', MediaRecorderStart, PopupRemoved,
      PopupAppended recording_message True]
   \<and> isRecording (rec (happen quick_restart (load_page webm_only)))
   \<and> popup (rec (happen quick_restart (load_page webm_only))) = Some (recording_message, True)
   \<and> isRecording (rec (happen (quick_restart @ [Fire_timeout]) (load_page webm_only)))
   \<and> popup (rec (happen (quick_restart @ [Fire_timeout]) (load_page webm_only))) = None
   \<and> effects (rec (happen (quick_restart @ [Fire_timeout]) (load_page webm_only)))
       = effects (rec (happen quick_restart (load_page webm_only))) @ [PopupRemoved]"
  by (simp add: quick_restart_def happen_def load_page_def webm_only_def recorder_defs)

text \<open>
  Claim C4, as amended. The spec's order is "format A with codec variant 1, format A
  plain, format B plain". The only probed type with a codec variant is
  \<^verbatim>\<open>video/webm;codecs=h264\<close>, so the spec's order reads WebM with H.264, WebM, MP4
  (\<open>spec_preference_order\<close>). The constructor asks in another order: MP4 first, then WebM
  with H.264, then plain WebM (\<open>source_preference_order\<close>). On a browser with
  \<^verbatim>\<open>MediaRecorder\<close> and \<^verbatim>\<open>video/webm\<close> support the negotiated type is the first supported
  entry of the source's order and the recorder is supported; when \<^verbatim>\<open>video/mp4\<close> is
  supported (in particular when everything is) the negotiated type is \<^verbatim>\<open>video/mp4\<close>.
\<close>

theorem C4_negotiation_order:
  assumes "hasMediaRecorder w" and "isTypeSupported w ''video/webm''"
  shows "options_mimeType (new_Recorder w) = find (isTypeSupported w) source_preference_order
       \<and> isSupported (new_Recorder w)
       \<and> (isTypeSupported w ''video/mp4'' \<longrightarrow>
            options_mimeType (new_Recorder w) = Some ''video/mp4'')"
  using assms
  by (auto simp: new_Recorder_def choose_mimeType_find[symmetric] choose_mimeType_def emit_def blank_def)

theorem C4_negotiation_order_witness:
  "hasMediaRecorder everything_supported
   \<and> isTypeSupported everything_supported ''video/webm''
   \<and> options_mimeType (new_Recorder everything_supported) = Some ''video/mp4''
   \<and> isSupported (new_Recorder everything_supported)"
proof -
  have h1: "hasMediaRecorder everything_supported"
    by (simp add: everything_supported_def)
  have h2: "isTypeSupported everything_supported ''video/webm''"
    by (simp add: everything_supported_def)
  have h3: "isTypeSupported everything_supported ''video/mp4''"
    by (simp add: everything_supported_def)
  from C4_negotiation_order[OF h1 h2] h3 h1 h2 show ?thesis
    by blast
qed

text \<open>
  Claim C4 as stated fails: with every type supported the constructor negotiates
  \<^verbatim>\<open>video/mp4\<close>, the last entry of the spec's order, not its first.
\<close>

theorem C4_spec_order_counterexample:
  "\<not> (options_mimeType (new_Recorder everything_supported)
        = find (isTypeSupported everything_supported) spec_preference_order)"
  by (simp add: new_Recorder_def everything_supported_def choose_mimeType_def emit_def blank_def
        spec_preference_order_def)

text \<open>
  Claim C5. In every state \<open>r\<close> of the recorder (so after every sequence of calls):
  a second \<^verbatim>\<open>startRecording\<close> or \<^verbatim>\<open>stopRecording\<close> in a row returns the state unchanged,
  log of notifications included; \<^verbatim>\<open>startRecording\<close> while recording and
  \<^verbatim>\<open>stopRecording\<close> while not recording change nothing; and \<^verbatim>\<open>isRecording\<close> changes
  only on a supported recorder, by \<^verbatim>\<open>startRecording\<close> when it was false and by
  \<^verbatim>\<open>stopRecording\<close> when it was true, where it does change.
\<close>

theorem C5_start_stop_idempotent:
  "startRecording (startRecording r) = startRecording r
   \<and> stopRecording (stopRecording r) = stopRecording r
   \<and> (isRecording r \<longrightarrow> startRecording r = r)
   \<and> (\<not> isRecording r \<longrightarrow> stopRecording r = r)
   \<and> (isRecording (startRecording r) \<noteq> isRecording r \<longrightarrow> isSupported r \<and> \<not> isRecording r)
   \<and> (isRecording (stopRecording r) \<noteq> isRecording r \<longrightarrow> isSupported r \<and> isRecording r)
   \<and> (isSupported r \<and> \<not> isRecording r \<longrightarrow> isRecording (startRecording r))
   \<and> (isSupported r \<and> isRecording r \<longrightarrow> \<not> isRecording (stopRecording r))"
  by (simp add: startRecording_def stopRecording_def Let_def emit_def)

theorem C5_start_stop_idempotent_witness:
  "isSupported (new_Recorder webm_only) \<and> \<not> isRecording (new_Recorder webm_only)
   \<and> isRecording (startRecording (new_Recorder webm_only))
   \<and> startRecording (startRecording (new_Recorder webm_only)) = startRecording (new_Recorder webm_only)
   \<and> stopRecording (new_Recorder webm_only) = new_Recorder webm_only"
proof -
  have s: "isSupported (new_Recorder webm_only)"
    by (simp add: new_Recorder_def webm_only_def choose_mimeType_def emit_def blank_def)
  have n: "\<not> isRecording (new_Recorder webm_only)"
    by (simp add: new_Recorder_def webm_only_def choose_mimeType_def emit_def blank_def)
  from C5_start_stop_idempotent[of "new_Recorder webm_only"] s n show ?thesis
    by blast
qed

text \<open>
  Claim C6. On an unsupported recorder, or with no avatar attached, \<^verbatim>\<open>recordAnimation\<close>
  returns an already resolved promise and leaves the recorder as it was: nothing is
  sent to the capture facility, no effect is logged, and no frame callback is registered.
\<close>

theorem C6_recordAnimation_guard:
  assumes "\<not> isSupported r \<or> this_gvrm r = None"
  shows "recordAnimation p D r = ResolvedAtOnce r
       \<and> fire (Call_recordAnimation p D) \<lparr> rec = r, runs = us, resolved_at_once = ps \<rparr>
           = \<lparr> rec = r, runs = us, resolved_at_once = ps @ [p] \<rparr>"
  using assms by (auto simp: recordAnimation_def)

theorem C6_recordAnimation_guard_witness:
  "\<not> isSupported (new_Recorder mp4_without_webm)
   \<and> recordAnimation 1 2 (setGVRM (Some sample_avatar) (new_Recorder mp4_without_webm))
       = ResolvedAtOnce (setGVRM (Some sample_avatar) (new_Recorder mp4_without_webm))
   \<and> isSupported (new_Recorder webm_only) \<and> this_gvrm (new_Recorder webm_only) = None
   \<and> recordAnimation 1 2 (new_Recorder webm_only) = ResolvedAtOnce (new_Recorder webm_only)"
proof -
  have u: "\<not> isSupported (new_Recorder mp4_without_webm)"
    by (simp add: new_Recorder_def mp4_without_webm_def emit_def blank_def)
  then have u': "\<not> isSupported (setGVRM (Some sample_avatar) (new_Recorder mp4_without_webm))
      \<or> this_gvrm (setGVRM (Some sample_avatar) (new_Recorder mp4_without_webm)) = None"
    by (simp add: setGVRM_def)
  have s: "isSupported (new_Recorder webm_only)"
    by (simp add: new_Recorder_def webm_only_def choose_mimeType_def emit_def blank_def)
  have n: "this_gvrm (new_Recorder webm_only) = None"
    by (simp add: new_Recorder_def webm_only_def choose_mimeType_def emit_def blank_def)
  then have n': "\<not> isSupported (new_Recorder webm_only) \<or> this_gvrm (new_Recorder webm_only) = None"
    by simp
  from C6_recordAnimation_guard[OF u', of 1 2] C6_recordAnimation_guard[OF n', of 1 2] u s n
  show ?thesis by blast
qed

text \<open>
  Claim C7. The finalization callback names the file after the avatar and the animation:
  with avatar path \<^verbatim>\<open>a/sample1.gvrm\<close> and animation path \<^verbatim>\<open>a/Idle.fbx\<close> the base is
  \<^verbatim>\<open>recording_sample1_Idle\<close>; with an avatar but no animation (no animation URL, or no
  character at all) it is \<^verbatim>\<open>recording_sample1\<close>; with no avatar it is \<^verbatim>\<open>recording\<close>.
  The last conjunct runs \<^verbatim>\<open>onstop\<close> itself on a recorder that negotiated WebM.
\<close>

theorem C7_filename_base:
  "filename_of (Some \<lparr> fileName = Some ''a/sample1.gvrm'',
       character = Some \<lparr> animationUrl = Some ''a/Idle.fbx'' \<rparr> \<rparr>) = ''recording_sample1_Idle''
   \<and> filename_of (Some \<lparr> fileName = Some ''a/sample1.gvrm'',
       character = Some \<lparr> animationUrl = None \<rparr> \<rparr>) = ''recording_sample1''
   \<and> filename_of (Some \<lparr> fileName = Some ''a/sample1.gvrm'', character = None \<rparr>)
       = ''recording_sample1''
   \<and> filename_of None = ''recording''
   \<and> effects (onstop (setGVRM (Some sample_avatar) (new_Recorder webm_only))) =
       effects (new_Recorder webm_only) @
         [DownloadClicked ''recording_sample1_Idle.webm'' (Blob [] ''video/webm'')]"
  by (simp add: filename_of_def strip_path_sample strip_path_idle onstop_effects[where m = "''video/webm''"]
        setGVRM_def new_Recorder_def webm_only_def choose_mimeType_def emit_def blank_def
        sample_avatar_def fileExt_values new_Blob_def)

theorem C7_filename_base_witness:
  "effects (onstop (setGVRM (Some sample_avatar) (new_Recorder webm_only))) =
       effects (new_Recorder webm_only) @
         [DownloadClicked ''recording_sample1_Idle.webm'' (Blob [] ''video/webm'')]"
  using C7_filename_base by blast

text \<open>
  Claim C8. The type negotiated by the constructor is one of three; the extension computed
  from it is \<^verbatim>\<open>mp4\<close> for \<^verbatim>\<open>video/mp4\<close> and \<^verbatim>\<open>webm\<close> for both WebM types. The type never
  changes afterwards, so in every later state \<^verbatim>\<open>onstop\<close> names the download with that
  extension.
\<close>

theorem C8_file_extension:
  assumes "options_mimeType (new_Recorder w) = Some m"
  shows "((m = ''video/mp4'' \<and> fileExt m = ''mp4'')
          \<or> ((m = ''video/webm;codecs=h264'' \<or> m = ''video/webm'') \<and> fileExt m = ''webm''))
       \<and> (\<exists>b rest. effects (onstop (rec (happen evs (load_page w)))) =
             effects (rec (happen evs (load_page w))) @
               DownloadClicked (filename_of (this_gvrm (rec (happen evs (load_page w)))) @ ''.'' @
                  (if m = ''video/mp4'' then ''mp4'' else ''webm'')) b # rest)"
proof -
  let ?r = "rec (happen evs (load_page w))"
  have o: "options_mimeType ?r = Some m"
    using assms by (simp add: happen_options load_page_def)
  from new_Recorder_options[OF assms]
  have m: "m = ''video/mp4'' \<or> m = ''video/webm;codecs=h264'' \<or> m = ''video/webm''" .
  then have ext: "fileExt m = (if m = ''video/mp4'' then ''mp4'' else ''webm'')"
    by (auto simp: fileExt_values)
  from m ext have first: "(m = ''video/mp4'' \<and> fileExt m = ''mp4'')
          \<or> ((m = ''video/webm;codecs=h264'' \<or> m = ''video/webm'') \<and> fileExt m = ''webm'')"
    by auto
  from onstop_effects[OF o] ext show ?thesis
    using first by simp
qed

theorem C8_file_extension_witness:
  "options_mimeType (new_Recorder everything_supported) = Some ''video/mp4''
   \<and> fileExt ''video/mp4'' = ''mp4''
   \<and> options_mimeType (new_Recorder webm_only) = Some ''video/webm''
   \<and> fileExt ''video/webm'' = ''webm''"
proof -
  have a: "options_mimeType (new_Recorder everything_supported) = Some ''video/mp4''"
    by (simp add: new_Recorder_def everything_supported_def choose_mimeType_def emit_def blank_def)
  have b: "options_mimeType (new_Recorder webm_only) = Some ''video/webm''"
    by (simp add: new_Recorder_def webm_only_def choose_mimeType_def emit_def blank_def)
  from C8_file_extension[OF a, of "[]"] C8_file_extension[OF b, of "[]"] a b show ?thesis
    by simp
qed

text \<open>
  Claim C9. When \<^verbatim>\<open>onstop\<close> fires while \<^verbatim>\<open>currentRecordingResolve\<close> is empty, it assembles
  the blob, clicks the download link and rebinds the buffer to a fresh empty array; it
  resolves nothing, and the slot stays empty.
\<close>

theorem C9_finalization_without_pending:
  assumes "options_mimeType r = Some m" and "currentRecordingResolve r = None"
  shows "onstop r =
           r\<lparr> effects := effects r @
                 [DownloadClicked (filename_of (this_gvrm r) @ ''.'' @ fileExt m)
                    (new_Blob (arrays r (closure_recordedChunks r))
                       (if m \<noteq> [] then m else ''video/webm''))],
               arrays := (arrays r)(next_addr r := []),
               next_addr := Suc (next_addr r),
               closure_recordedChunks := next_addr r \<rparr>
       \<and> currentRecordingResolve (onstop r) = None
       \<and> (\<forall>p. PromiseResolved p \<in> set (effects (onstop r)) \<longrightarrow> PromiseResolved p \<in> set (effects r))"
  using assms by (simp add: onstop_def emit_def Let_def)

theorem C9_finalization_without_pending_witness:
  "options_mimeType (new_Recorder webm_only) = Some ''video/webm''
   \<and> currentRecordingResolve (new_Recorder webm_only) = None
   \<and> currentRecordingResolve (onstop (new_Recorder webm_only)) = None
   \<and> effects (onstop (new_Recorder webm_only)) =
       [ConsoleLog ''Using codec: video/webm'',
        DownloadClicked ''recording.webm'' (Blob [] ''video/webm'')]"
proof -
  have o: "options_mimeType (new_Recorder webm_only) = Some ''video/webm''"
    by (simp add: new_Recorder_def webm_only_def choose_mimeType_def emit_def blank_def)
  have c: "currentRecordingResolve (new_Recorder webm_only) = None"
    by (simp add: new_Recorder_def webm_only_def choose_mimeType_def emit_def blank_def)
  have e: "effects (new_Recorder webm_only) = [ConsoleLog ''Using codec: video/webm'']"
    by (simp add: new_Recorder_def webm_only_def choose_mimeType_def emit_def blank_def)
  have g: "this_gvrm (new_Recorder webm_only) = None"
    by (simp add: new_Recorder_def webm_only_def choose_mimeType_def emit_def blank_def)
  have a: "arrays (new_Recorder webm_only) (closure_recordedChunks (new_Recorder webm_only)) = []"
    by (simp add: new_Recorder_def webm_only_def choose_mimeType_def emit_def blank_def)
  from C9_finalization_without_pending[OF o c]
  have "currentRecordingResolve (onstop (new_Recorder webm_only)) = None"
    and "effects (onstop (new_Recorder webm_only)) =
       effects (new_Recorder webm_only) @
         [DownloadClicked (filename_of (this_gvrm (new_Recorder webm_only)) @ ''.'' @ fileExt ''video/webm'')
            (new_Blob (arrays (new_Recorder webm_only) (closure_recordedChunks (new_Recorder webm_only)))
               ''video/webm'')]"
    by (simp_all add: onstop_effects[OF o] c)
  then show ?thesis
    using o c by (simp add: e g a filename_of_def fileExt_values new_Blob_def)
qed

text \<open>
  Claim C10, as amended. When \<^verbatim>\<open>video/webm\<close> is not supported the constructor returns at
  its first guard with \<^verbatim>\<open>isSupported = false\<close>, whatever else the browser supports. From
  then on, whatever is called and whatever the browser fires, the recorder stays
  unsupported and its effect log stays the constructor's one warning; \<^verbatim>\<open>toggleRecording\<close>,
  \<^verbatim>\<open>startRecording\<close> and \<^verbatim>\<open>stopRecording\<close> return the state they were given and
  \<^verbatim>\<open>recordAnimation\<close> resolves at once. \<^verbatim>\<open>setGVRM\<close> is not guarded: the only field that
  ever differs from the constructed object is the avatar reference it stores.
\<close>

theorem C10_webm_is_required:
  assumes "\<not> isTypeSupported w ''video/webm''"
  shows "\<not> isSupported (new_Recorder w)
       \<and> \<not> isSupported (rec (happen evs (load_page w)))
       \<and> effects (rec (happen evs (load_page w))) = effects (new_Recorder w)
       \<and> rec (happen evs (load_page w))
            = (new_Recorder w)\<lparr> this_gvrm := this_gvrm (rec (happen evs (load_page w))) \<rparr>
       \<and> toggleRecording (rec (happen evs (load_page w))) = rec (happen evs (load_page w))
       \<and> startRecording (rec (happen evs (load_page w))) = rec (happen evs (load_page w))
       \<and> stopRecording (rec (happen evs (load_page w))) = rec (happen evs (load_page w))
       \<and> recordAnimation p D (rec (happen evs (load_page w)))
            = ResolvedAtOnce (rec (happen evs (load_page w)))"
proof -
  let ?init = "new_Recorder w"
  let ?r = "rec (happen evs (load_page w))"
  have r0: "\<not> isSupported ?init" "options_mimeType ?init = None" "popup ?init = None"
    using assms by (simp_all add: new_Recorder_without_webm blank_def)
  have "\<exists>g. rec (load_page w) = ?init\<lparr> this_gvrm := g \<rparr>"
    by (rule exI[of _ "this_gvrm ?init"]) (simp add: load_page_def)
  from unsupported_stays[OF r0 this, of evs]
  obtain g where g: "?r = ?init\<lparr> this_gvrm := g \<rparr>" by blast
  then have same: "?r = ?init\<lparr> this_gvrm := this_gvrm ?r \<rparr>" by simp
  have u: "\<not> isSupported ?r" using g r0 by simp
  have e: "effects ?r = effects ?init" using g by simp
  show ?thesis
    using r0(1) u e same
    by (simp add: toggleRecording_def startRecording_def stopRecording_def recordAnimation_def)
qed

theorem C10_webm_is_required_witness:
  "\<not> isTypeSupported mp4_without_webm ''video/webm''
   \<and> isTypeSupported mp4_without_webm ''video/mp4''
   \<and> \<not> isSupported (new_Recorder mp4_without_webm)
   \<and> effects (rec (happen [Call_setGVRM (Some sample_avatar), Call_startRecording,
          Call_recordAnimation 1 2, Call_toggleRecording] (load_page mp4_without_webm)))
       = [ConsoleWarn ''MediaRecorder or video/webm is not supported on this browser.'']"
proof -
  have h: "\<not> isTypeSupported mp4_without_webm ''video/webm''"
    by (simp add: mp4_without_webm_def)
  have m: "isTypeSupported mp4_without_webm ''video/mp4''"
    by (simp add: mp4_without_webm_def)
  have e: "effects (new_Recorder mp4_without_webm)
      = [ConsoleWarn ''MediaRecorder or video/webm is not supported on this browser.'']"
    by (simp add: new_Recorder_without_webm[OF h] blank_def)
  from C10_webm_is_required[OF h, of "[Call_setGVRM (Some sample_avatar), Call_startRecording,
          Call_recordAnimation 1 2, Call_toggleRecording]"] h m e
  show ?thesis by simp
qed

text \<open>
  Claim C10 as stated fails: \<^verbatim>\<open>setGVRM\<close> is a public operation, and on a recorder left
  unsupported for want of \<^verbatim>\<open>video/webm\<close> it still changes the state.
\<close>

theorem C10_setGVRM_counterexample:
  "\<not> isTypeSupported mp4_without_webm ''video/webm''
   \<and> \<not> isSupported (new_Recorder mp4_without_webm)
   \<and> setGVRM (Some sample_avatar) (new_Recorder mp4_without_webm) \<noteq> new_Recorder mp4_without_webm"
proof -
  have "this_gvrm (setGVRM (Some sample_avatar) (new_Recorder mp4_without_webm))
      \<noteq> this_gvrm (new_Recorder mp4_without_webm)"
    by (simp add: setGVRM_def new_Recorder_def mp4_without_webm_def emit_def blank_def)
  then have "setGVRM (Some sample_avatar) (new_Recorder mp4_without_webm) \<noteq> new_Recorder mp4_without_webm"
    by auto
  then show ?thesis
    by (simp add: new_Recorder_def mp4_without_webm_def emit_def blank_def)
qed

end
